theory Spec2Isabelle
  imports Main "HOL-Library.Sublist" "HOL-Library.AList"
begin

section \<open>Python values, errors and the program state\<close>

text \<open>
  The two scripts \<open>create_subagent.py\<close> and \<open>generate_claude_md.py\<close> are embedded
  here. A Python \<open>str\<close> is a \<open>string\<close>; a \<open>char\<close> stands for one code point
  below 256, so the names and paths ranged over are the Latin-1 strings. A Python
  \<open>dict\<close> is an association list in insertion order. The values held by the
  template records are strings and lists of strings.
\<close>

datatype pyval = Str string | StrList "string list"

type_synonym pydict = "(string \<times> pyval) list"

type_synonym addr = nat

text \<open>
  Every exception the scripts or the library calls they make can raise is a value.
  \<open>ArgumentError\<close> is argparse rejecting a command line: it prints the usage and
  \<open>argument ARG: invalid choice: VALUE (choose from CHOICES)\<close>, and exits with status 2;
  the value carries \<open>ARG\<close>, \<open>VALUE\<close> and \<open>CHOICES\<close>.
  \<open>NotModelled\<close> marks the two places where the Python runtime does something this
  development does not describe (the \<open>str\<close> of a list, and the parts of the format
  mini-language that \<open>CLAUDE_CODE_FORMAT\<close> does not use).
\<close>

datatype error =
    ValueError string
  | KeyError string
  | TypeError string
  | FileNotFoundError
  | FileExistsError
  | NotADirectoryError
  | IsADirectoryError
  | ArgumentError string string "string list"
  | NotModelled string

datatype node = Dir | File string

text \<open>
  The state a call runs in: the heap of dict objects (the records of the registry live
  there, and so does the copy \<open>create_subagent\<close> makes; an address not yet given out
  holds the empty dict), the next free address, and
  the file system: the working directory and the nodes, keyed by their absolute path
  (the list of names from the root, \<open>[]\<close> being the root). There are no symbolic links,
  no permissions and no limits on names or space. Standard output is left out: what the
  scripts print is read by no other statement.
\<close>

record state =
  store :: "addr \<Rightarrow> pydict"
  next_addr :: addr
  cwd :: "string list"
  nodes :: "string list \<Rightarrow> node option"

type_synonym 'a io = "state \<Rightarrow> (error + 'a) \<times> state"

definition ok :: "'a \<Rightarrow> 'a io" where
  "ok x s = (Inr x, s)"

definition raise :: "error \<Rightarrow> 'a io" where
  "raise e s = (Inl e, s)"

definition bind_io :: "'a io \<Rightarrow> ('a \<Rightarrow> 'b io) \<Rightarrow> 'b io" where
  "bind_io m f s = (case m s of (Inl e, s') \<Rightarrow> (Inl e, s') | (Inr x, s') \<Rightarrow> f x s')"

section \<open>The registry of \<open>create_subagent.py\<close>\<close>

definition researcher_instructions :: string where
\<open>researcher_instructions = ''You are a research specialist. Your job is to:
- Search through documentation efficiently
- THINK DEEPLY about findings using extended thinking
- Analyze patterns and implications
- Synthesize insights with reasoning
- Return concise, well-reasoned summaries

IMPORTANT: For complex research, use extended thinking before responding:
- Use "think hard" for multi-source analysis
- Use "ultrathink" for architecture pattern evaluation
- Your thinking happens in YOUR isolated context
- Return only the analysis summary to the main agent

The main agent needs your INSIGHTS, not raw data.''\<close>

definition tester_instructions :: string where
\<open>tester_instructions = ''You are a testing specialist. Your job is to:
- Execute test suites
- Validate code changes
- ANALYZE test failures deeply
- Identify root causes and patterns
- Report clear, actionable results

IMPORTANT: When test failures occur, use extended thinking:
- Use "think hard" to analyze failure patterns
- Consider root causes and related issues
- Your analysis happens in YOUR isolated context
- Return actionable findings to the main agent

Focus on test execution and insightful result reporting.''\<close>

definition analyzer_instructions :: string where
\<open>analyzer_instructions = ''You are a code analysis specialist. Your job is to:
- Analyze code structure and patterns
- THINK DEEPLY about implications and tradeoffs
- Identify potential issues and opportunities
- Compute complexity metrics
- Find dependencies and relationships

IMPORTANT: Always use extended thinking for analysis:
- Use "think harder" for architecture analysis
- Use "ultrathink" for complex system evaluation
- Consider multiple perspectives and edge cases
- Your deep reasoning happens in YOUR isolated context
- Return concise analysis with key insights to the main agent

Provide actionable insights backed by reasoning.''\<close>

definition builder_instructions :: string where
\<open>builder_instructions = ''You are a build specialist. Your job is to:
- Execute build processes
- Run deployment scripts
- Verify build outputs
- Report build status and errors

Focus on build execution and clear status reporting. Return success/failure and any errors.''\<close>

definition deep_analyzer_instructions :: string where
\<open>deep_analyzer_instructions = ''You are a deep analysis specialist. Your PRIMARY function is to think deeply before responding.

MANDATORY WORKFLOW:
1. Always start with "ultrathink" for complex analysis
2. Consider multiple approaches and perspectives
3. Evaluate tradeoffs, implications, and edge cases
4. Reason through consequences and alternatives
5. Synthesize findings into clear recommendations

Your extended thinking happens in YOUR isolated context - this is your superpower.
The main agent only sees your conclusions, not your reasoning process.

RETURN FORMAT:
- Brief conclusion (2-3 sentences)
- Key reasoning points (3-5 bullets)
- Recommendation with rationale
- Any important caveats

The main agent trusts your deep analysis. Give them confidence through thorough thinking.''\<close>

definition researcher :: pydict where
\<open>researcher =
  [(''name'', Str ''{agent_name}''),
   (''description'', Str ''Research and documentation lookup agent with deep analysis''),
   (''instructions'', Str researcher_instructions),
   (''tools'', StrList [''read'', ''search'', ''web_search'']),
   (''autonomy'', Str ''medium'')]\<close>

definition tester :: pydict where
\<open>tester =
  [(''name'', Str ''{agent_name}''),
   (''description'', Str ''Testing and validation agent with analysis''),
   (''instructions'', Str tester_instructions),
   (''tools'', StrList [''bash'', ''read'', ''write'']),
   (''autonomy'', Str ''high'')]\<close>

definition analyzer :: pydict where
\<open>analyzer =
  [(''name'', Str ''{agent_name}''),
   (''description'', Str ''Code analysis and deep architectural insight agent''),
   (''instructions'', Str analyzer_instructions),
   (''tools'', StrList [''read'', ''search'', ''bash'']),
   (''autonomy'', Str ''medium'')]\<close>

definition builder :: pydict where
\<open>builder =
  [(''name'', Str ''{agent_name}''),
   (''description'', Str ''Build and deployment agent''),
   (''instructions'', Str builder_instructions),
   (''tools'', StrList [''bash'', ''read'']),
   (''autonomy'', Str ''high'')]\<close>

definition deep_analyzer :: pydict where
\<open>deep_analyzer =
  [(''name'', Str ''{agent_name}''),
   (''description'', Str ''Deep analysis agent with mandatory extended thinking''),
   (''instructions'', Str deep_analyzer_instructions),
   (''tools'', StrList [''read'', ''search'', ''bash'', ''web_search'']),
   (''autonomy'', Str ''high'')]\<close>

text \<open>
  \<open>SUBAGENT_TEMPLATES\<close> is the outer dict: each type key is bound to the dict object
  of its record, at the address the module gave it when it was loaded. No statement of
  the script assigns into the outer dict. \<open>module_store\<close> is the heap after loading.
\<close>

definition SUBAGENT_TEMPLATES :: "(string \<times> addr) list" where
  "SUBAGENT_TEMPLATES =
    [(''researcher'', 0), (''tester'', 1), (''analyzer'', 2), (''builder'', 3),
     (''deep_analyzer'', 4)]"

definition module_store :: "addr \<Rightarrow> pydict" where
  "module_store a =
    (if a = 0 then researcher else if a = 1 then tester else if a = 2 then analyzer
     else if a = 3 then builder else if a = 4 then deep_analyzer else [])"

definition registry_loaded :: "state \<Rightarrow> bool" where
  "registry_loaded s \<longleftrightarrow>
    (\<forall>a \<in> set (map snd SUBAGENT_TEMPLATES). store s a = module_store a \<and> a < next_addr s)"

definition CLAUDE_CODE_FORMAT :: string where
\<open>CLAUDE_CODE_FORMAT = ''# {agent_name}

{description}

## Instructions

{instructions}

## Allowed Tools

{tools}

## Autonomy Level

{autonomy_description}
''\<close>

definition AUTONOMY_DESCRIPTIONS :: "(string \<times> string) list" where
  "AUTONOMY_DESCRIPTIONS =
    [(''low'', ''Ask for confirmation before taking actions. Provide recommendations.''),
     (''medium'', ''Take standard actions autonomously. Ask for confirmation on significant changes.''),
     (''high'', ''Execute tasks fully autonomously. Report results when complete.'')]"

section \<open>Strings: \<open>join\<close> and \<open>format\<close>\<close>

fun join :: "string \<Rightarrow> string list \<Rightarrow> string" where
  "join sep [] = []"
| "join sep [x] = x"
| "join sep (x # y # ys) = x @ sep @ join sep (y # ys)"

text \<open>Iterating a value: a list gives its items, a string its characters.\<close>

fun py_iter :: "pyval \<Rightarrow> string list" where
  "py_iter (StrList xs) = xs"
| "py_iter (Str s) = map (\<lambda>c. [c]) s"

text \<open>
  \<open>str.format\<close> with keyword arguments. The format string is read once, left to right:
  \<open>{{\<close> and \<open>}}\<close> are the two braces, \<open>{name}\<close> is replaced by the argument of that
  name, and the text put in is not read again. A name that is no plain keyword (empty,
  a number, or with a conversion, a format specification, an attribute or an index) is
  \<open>NotModelled\<close>, and so is an argument that is a list.
\<close>

datatype fmode = Literal | Field string

definition get_field :: "(string \<times> pyval) list \<Rightarrow> string \<Rightarrow> error + string" where
  "get_field kwargs field_name =
    (if field_name = [] \<or> hd field_name \<in> set ''0123456789''
        \<or> (\<exists>c \<in> set field_name. c \<in> set ''{[.!:'')
     then Inl (NotModelled field_name)
     else case map_of kwargs field_name of
       None \<Rightarrow> Inl (KeyError field_name)
     | Some (Str v) \<Rightarrow> Inr v
     | Some (StrList vs) \<Rightarrow> Inl (NotModelled field_name))"

definition prepend :: "string \<Rightarrow> error + string \<Rightarrow> error + string" where
  "prepend v r = (case r of Inl e \<Rightarrow> Inl e | Inr t \<Rightarrow> Inr (v @ t))"

fun format_from :: "fmode \<Rightarrow> (string \<times> pyval) list \<Rightarrow> string \<Rightarrow> error + string" where
  "format_from Literal kwargs [] = Inr []"
| "format_from (Field n) kwargs [] = Inl (ValueError ''expected '}' before end of string'')"
| "format_from Literal kwargs (c # cs) =
    (if c = CHR ''{'' then
       (case cs of
          [] \<Rightarrow> Inl (ValueError ''Single '{' encountered in format string'')
        | d # ds \<Rightarrow>
            if d = CHR ''{'' then prepend ''{'' (format_from Literal kwargs ds)
            else format_from (Field []) kwargs cs)
     else if c = CHR ''}'' then
       (case cs of
          [] \<Rightarrow> Inl (ValueError ''Single '}' encountered in format string'')
        | d # ds \<Rightarrow>
            if d = CHR ''}'' then prepend ''}'' (format_from Literal kwargs ds)
            else Inl (ValueError ''Single '}' encountered in format string''))
     else prepend [c] (format_from Literal kwargs cs))"
| "format_from (Field n) kwargs (c # cs) =
    (if c = CHR ''}'' then
       (case get_field kwargs n of
          Inl e \<Rightarrow> Inl e
        | Inr v \<Rightarrow> prepend v (format_from Literal kwargs cs))
     else format_from (Field (n @ [c])) kwargs cs)"

definition format :: "string \<Rightarrow> (string \<times> pyval) list \<Rightarrow> error + string" where
  "format fmt kwargs = format_from Literal kwargs fmt"

section \<open>\<open>json.dumps\<close> with \<open>indent=2\<close>\<close>

text \<open>
  The encoder of the \<open>json\<close> module with its defaults (\<open>ensure_ascii\<close>): inside the
  quotes a character from the space to the tilde stands for itself, except the
  backslash and the double quote; every other character is escaped.
\<close>

definition hexdigit :: "nat \<Rightarrow> char" where
  "hexdigit n = ''0123456789abcdef'' ! (n mod 16)"

definition escape_char :: "char \<Rightarrow> string" where
  "escape_char c =
    (if c = CHR 0x5C then [CHR 0x5C, CHR 0x5C]
     else if c = CHR 0x22 then [CHR 0x5C, CHR 0x22]
     else if c = CHR 0x08 then [CHR 0x5C, CHR ''b'']
     else if c = CHR 0x0C then [CHR 0x5C, CHR ''f'']
     else if c = CHR 0x0A then [CHR 0x5C, CHR ''n'']
     else if c = CHR 0x0D then [CHR 0x5C, CHR ''r'']
     else if c = CHR 0x09 then [CHR 0x5C, CHR ''t'']
     else if (of_char c :: nat) < 32 \<or> 126 < (of_char c :: nat) then
       [CHR 0x5C, CHR ''u'', CHR ''0'', CHR ''0'',
        hexdigit (of_char c div 16), hexdigit (of_char c mod 16)]
     else [c])"

definition encode_basestring_ascii :: "string \<Rightarrow> string" where
  "encode_basestring_ascii s = CHR 0x22 # concat (map escape_char s) @ [CHR 0x22]"

definition newline_indent :: "nat \<Rightarrow> string" where
  "newline_indent level = CHR 0x0A # replicate (2 * level) CHR '' ''"

definition iterencode_list :: "string list \<Rightarrow> nat \<Rightarrow> string" where
  "iterencode_list lst level =
    (if lst = [] then ''[]''
     else ''['' @ newline_indent (level + 1)
          @ join ('','' @ newline_indent (level + 1)) (map encode_basestring_ascii lst)
          @ newline_indent level @ '']'')"

fun iterencode_value :: "pyval \<Rightarrow> nat \<Rightarrow> string" where
  "iterencode_value (Str s) level = encode_basestring_ascii s"
| "iterencode_value (StrList lst) level = iterencode_list lst level"

definition iterencode_dict :: "pydict \<Rightarrow> nat \<Rightarrow> string" where
  "iterencode_dict dct level =
    (if dct = [] then ''{}''
     else ''{'' @ newline_indent (level + 1)
          @ join ('','' @ newline_indent (level + 1))
              (map (\<lambda>(k, v). encode_basestring_ascii k @ '': '' @ iterencode_value v (level + 1)) dct)
          @ newline_indent level @ ''}'')"

definition json_dumps :: "pydict \<Rightarrow> string" where
  "json_dumps obj = iterencode_dict obj 0"

section \<open>Dict objects on the heap\<close>

text \<open>
  \<open>d.copy()\<close> makes a new dict object with the items of \<open>d\<close>; \<open>d[k] = v\<close> changes the
  object at the address of \<open>d\<close> (an existing key keeps its place, a new key goes last);
  \<open>d[k]\<close> raises \<open>KeyError\<close> for a missing key.
\<close>

definition dict_copy :: "addr \<Rightarrow> addr io" where
  "dict_copy a s =
    (Inr (next_addr s),
     s\<lparr>store := (store s)(next_addr s := store s a), next_addr := Suc (next_addr s)\<rparr>)"

definition setitem :: "addr \<Rightarrow> string \<Rightarrow> pyval \<Rightarrow> unit io" where
  "setitem a k v s = (Inr (), s\<lparr>store := (store s)(a := AList.update k v (store s a))\<rparr>)"

definition getitem :: "addr \<Rightarrow> string \<Rightarrow> pyval io" where
  "getitem a k s =
    (case map_of (store s a) k of None \<Rightarrow> (Inl (KeyError k), s) | Some v \<Rightarrow> (Inr v, s))"

definition load :: "addr \<Rightarrow> pydict io" where
  "load a s = (Inr (store s a), s)"

section \<open>Paths and the file system\<close>

text \<open>
  A \<open>pathlib\<close> path on POSIX: whether it starts at the root, and its parts. Parsing
  splits at \<open>/\<close> and drops the empty parts and the parts \<open>.\<close>; a part \<open>..\<close> stays.
  Joining with a string that starts with \<open>/\<close> gives the path of that string alone.
\<close>

record PosixPath =
  absolute :: bool
  parts :: "string list"

fun split :: "char \<Rightarrow> string \<Rightarrow> string list" where
  "split sep [] = [[]]"
| "split sep (c # cs) =
    (if c = sep then [] # split sep cs
     else (case split sep cs of [] \<Rightarrow> [[c]] | x # xs \<Rightarrow> (c # x) # xs))"

definition starts_with_slash :: "string \<Rightarrow> bool" where
  "starts_with_slash s = (case s of [] \<Rightarrow> False | c # cs \<Rightarrow> c = CHR ''/'')"

definition Path :: "string \<Rightarrow> PosixPath" where
  "Path s =
    \<lparr>absolute = starts_with_slash s,
     parts = filter (\<lambda>p. p \<noteq> [] \<and> p \<noteq> ''.'') (split CHR ''/'' s)\<rparr>"

definition joinpath :: "PosixPath \<Rightarrow> string \<Rightarrow> PosixPath" where
  "joinpath p s =
    (if starts_with_slash s then Path s else p\<lparr>parts := parts p @ parts (Path s)\<rparr>)"

definition parent :: "PosixPath \<Rightarrow> PosixPath" where
  "parent p = p\<lparr>parts := butlast (parts p)\<rparr>"

text \<open>
  The operating system follows a path part by part from a directory \<open>cur\<close>: the
  directory it stands in must exist, \<open>..\<close> goes up (the root is its own parent), a name
  goes down. \<open>walk_dir\<close> also asks that the place reached is a directory.
\<close>

fun walk :: "(string list \<Rightarrow> node option) \<Rightarrow> string list \<Rightarrow> string list \<Rightarrow> error + string list" where
  "walk fs cur [] = Inr cur"
| "walk fs cur (c # cs) =
    (case fs cur of
       None \<Rightarrow> Inl FileNotFoundError
     | Some (File x) \<Rightarrow> Inl NotADirectoryError
     | Some Dir \<Rightarrow> walk fs (if c = ''..'' then butlast cur else cur @ [c]) cs)"

definition walk_dir :: "(string list \<Rightarrow> node option) \<Rightarrow> string list \<Rightarrow> string list \<Rightarrow> error + string list" where
  "walk_dir fs cur cs =
    (case walk fs cur cs of
       Inl e \<Rightarrow> Inl e
     | Inr d \<Rightarrow>
        (case fs d of
           None \<Rightarrow> Inl FileNotFoundError
         | Some (File x) \<Rightarrow> Inl NotADirectoryError
         | Some Dir \<Rightarrow> Inr d))"

definition start_dir :: "state \<Rightarrow> PosixPath \<Rightarrow> string list" where
  "start_dir s p = (if absolute p then [] else cwd s)"

text \<open>
  \<open>os.mkdir\<close>: the directory the new entry goes into must exist; the entry itself must
  not (the path of no parts and a path ending in \<open>..\<close> name a directory that is there).
\<close>

definition os_mkdir :: "PosixPath \<Rightarrow> unit io" where
  "os_mkdir p s =
    (case walk_dir (nodes s) (start_dir s p) (butlast (parts p)) of
       Inl e \<Rightarrow> (Inl e, s)
     | Inr d \<Rightarrow>
        if parts p = [] \<or> last (parts p) = ''..'' then (Inl FileExistsError, s)
        else (case nodes s (d @ [last (parts p)]) of
                Some n \<Rightarrow> (Inl FileExistsError, s)
              | None \<Rightarrow> (Inr (), s\<lparr>nodes := (nodes s)(d @ [last (parts p)] \<mapsto> Dir)\<rparr>)))"

definition is_dir :: "PosixPath \<Rightarrow> state \<Rightarrow> bool" where
  "is_dir p s =
    (case walk_dir (nodes s) (start_dir s p) (parts p) of Inl e \<Rightarrow> False | Inr d \<Rightarrow> True)"

text \<open>
  \<open>Path.mkdir(parents, exist_ok)\<close> as pathlib writes it: try \<open>os.mkdir\<close>; on
  \<open>FileNotFoundError\<close> with \<open>parents\<close>, make the parent (with \<open>parents=True,
  exist_ok=True\<close>) and then this directory without \<open>parents\<close>; on any other
  \<open>OSError\<close>, pass if \<open>exist_ok\<close> and the path is a directory.
\<close>

function mkdir :: "PosixPath \<Rightarrow> bool \<Rightarrow> bool \<Rightarrow> unit io" where
  "mkdir p parents exist_ok s =
    (case os_mkdir p s of
       (Inr u, s') \<Rightarrow> (Inr (), s')
     | (Inl e, s') \<Rightarrow>
         if e = FileNotFoundError then
           (if \<not> parents \<or> parent p = p then (Inl e, s)
            else (case mkdir (parent p) True True s of
                    (Inl e', s'') \<Rightarrow> (Inl e', s'')
                  | (Inr u, s'') \<Rightarrow> mkdir p False exist_ok s''))
         else if \<not> exist_ok \<or> \<not> is_dir p s then (Inl e, s)
         else (Inr (), s))"
  by pat_completeness auto
termination
proof (relation "measure (\<lambda>(p, parents, exist_ok, s). 2 * length (parts p) + (if parents then 1 else 0))",
       goal_cases)
  case 1
  show ?case by simp
next
  case (2 p parents exist_ok s r e s')
  have "parts p \<noteq> []"
  proof
    assume "parts p = []"
    then have "parent p = p" by (simp add: parent_def)
    with 2 show False by simp
  qed
  then obtain n where "length (parts p) = Suc n" by (cases "parts p") auto
  then show ?case by (simp add: parent_def)
next
  case 3
  then show ?case by simp
qed

text \<open>
  \<open>Path.write_text\<close>: opens the file for writing (made if absent, emptied if present;
  a directory cannot be opened so) and writes the text.
\<close>

definition write_text :: "PosixPath \<Rightarrow> string \<Rightarrow> unit io" where
  "write_text p content s =
    (case walk_dir (nodes s) (start_dir s p) (butlast (parts p)) of
       Inl e \<Rightarrow> (Inl e, s)
     | Inr d \<Rightarrow>
        if parts p = [] \<or> last (parts p) = ''..'' then (Inl IsADirectoryError, s)
        else (case nodes s (d @ [last (parts p)]) of
                Some Dir \<Rightarrow> (Inl IsADirectoryError, s)
              | _ \<Rightarrow> (Inr (), s\<lparr>nodes := (nodes s)(d @ [last (parts p)] \<mapsto> File content)\<rparr>)))"

text \<open>What a later \<open>read_text\<close> of the path would give: the text of the file, if it is one.\<close>

definition file_at :: "state \<Rightarrow> PosixPath \<Rightarrow> string option" where
  "file_at s p =
    (case walk_dir (nodes s) (start_dir s p) (butlast (parts p)) of
       Inl e \<Rightarrow> None
     | Inr d \<Rightarrow>
        if parts p = [] \<or> last (parts p) = ''..'' then None
        else (case nodes s (d @ [last (parts p)]) of Some (File text) \<Rightarrow> Some text | _ \<Rightarrow> None))"

section \<open>\<open>create_subagent.py\<close>\<close>

definition keys :: "('k \<times> 'v) list \<Rightarrow> 'k list" where
  "keys d = map fst d"

definition lookup_autonomy :: "pyval \<Rightarrow> string io" where
  "lookup_autonomy v =
    (case v of
       StrList xs \<Rightarrow> raise (TypeError ''unhashable type: 'list' '')
     | Str a \<Rightarrow>
        (case map_of AUTONOMY_DESCRIPTIONS a of
           None \<Rightarrow> raise (KeyError a)
         | Some d \<Rightarrow> ok d))"

definition lift :: "error + 'a \<Rightarrow> 'a io" where
  "lift r = (case r of Inl e \<Rightarrow> raise e | Inr x \<Rightarrow> ok x)"

definition create_subagent :: "string \<Rightarrow> string \<Rightarrow> string \<Rightarrow> unit io" where
  "create_subagent agent_name agent_type output_dir =
    (if agent_type \<notin> set (keys SUBAGENT_TEMPLATES) then
       raise (ValueError (''Unknown agent type: '' @ agent_type @ ''. ''
                          @ ''Choose from: '' @ join '', '' (keys SUBAGENT_TEMPLATES)))
     else
       (case map_of SUBAGENT_TEMPLATES agent_type of
          None \<Rightarrow> raise (KeyError agent_type)
        | Some record_addr \<Rightarrow>
       bind_io (dict_copy record_addr) (\<lambda>template.
       bind_io (setitem template ''name'' (Str agent_name)) (\<lambda>_.
       let output_path = Path output_dir in
       bind_io (mkdir output_path True True) (\<lambda>_.
       let agents_dir = joinpath (joinpath output_path ''.claude'') ''agents'' in
       bind_io (mkdir agents_dir True True) (\<lambda>_.
       let agent_file = joinpath agents_dir (agent_name @ ''.md'') in
       bind_io (getitem template ''tools'') (\<lambda>tools.
       let tools_list = join ''\<newline>'' (map (\<lambda>tool. ''- '' @ tool) (py_iter tools)) in
       bind_io (getitem template ''autonomy'') (\<lambda>autonomy.
       bind_io (lookup_autonomy autonomy) (\<lambda>autonomy_desc.
       bind_io (getitem template ''description'') (\<lambda>description.
       bind_io (getitem template ''instructions'') (\<lambda>instructions.
       bind_io (lift (format CLAUDE_CODE_FORMAT
                  [(''agent_name'', Str agent_name),
                   (''description'', description),
                   (''instructions'', instructions),
                   (''tools'', Str tools_list),
                   (''autonomy_description'', Str autonomy_desc)])) (\<lambda>content.
       bind_io (write_text agent_file content) (\<lambda>_.
       let json_file = joinpath agents_dir (agent_name @ ''.json'') in
       bind_io (load template) (\<lambda>obj.
       write_text json_file (json_dumps obj)))))))))))))))"

text \<open>
  \<open>main\<close>, from the command line as argparse has split it: the positional
  \<open>agent_name\<close>, and \<open>--type\<close> and \<open>--output\<close> where given. argparse checks a given
  \<open>--type\<close> against \<open>choices\<close>; a default is not checked.
\<close>

definition create_subagent_main :: "string \<Rightarrow> string option \<Rightarrow> string option \<Rightarrow> unit io" where
  "create_subagent_main agent_name type_arg output_arg =
    (case type_arg of
       Some t \<Rightarrow>
         if t \<notin> set (keys SUBAGENT_TEMPLATES)
         then raise (ArgumentError ''--type'' t (keys SUBAGENT_TEMPLATES))
         else create_subagent agent_name t (case output_arg of None \<Rightarrow> ''.'' | Some d \<Rightarrow> d)
     | None \<Rightarrow>
         create_subagent agent_name ''researcher'' (case output_arg of None \<Rightarrow> ''.'' | Some d \<Rightarrow> d))"

text \<open>The exit status of the process: 0, 2 from argparse, 1 for an exception nobody caught.\<close>

definition exit_status :: "(error + unit) \<Rightarrow> nat" where
  "exit_status r = (case r of Inr u \<Rightarrow> 0 | Inl (ArgumentError a v cs) \<Rightarrow> 2 | Inl e \<Rightarrow> 1)"

section \<open>\<open>generate_claude_md.py\<close>\<close>

definition general_template :: string where
\<open>general_template = ''# Claude Code Configuration

## Project Overview
<!-- Describe your project's purpose, architecture, and key components -->

## Context Management Strategy

### When to Use Subagents
- **Code searches**: Use subagents to search through large codebases
- **File analysis**: Delegate multi-file analysis to subagents
- **Research tasks**: Use subagents for documentation lookups
- **Testing**: Isolate test runs in subagents

### Context Commands
- Use `/clear` between major tasks to reset context
- Use `/compact` before complex multi-step work
- Use `think` for planning complex changes

## Development Workflow

1. **Planning Phase**: Use "think" to analyze approach
2. **Implementation**: Keep main context focused on current task
3. **Verification**: Use subagents for testing and validation
4. **Cleanup**: `/clear` before starting new features

## Allowed Tools
- File operations (read, write, edit)
- Git operations (commit, branch, status)
- Shell commands for building and testing
- Subagent delegation

## Code Style
<!-- Add your project's code style guidelines -->

## Escalation Rules
- Ask before making breaking changes
- Confirm before deleting files
- Verify test results before committing
''\<close>

definition backend_template :: string where
\<open>backend_template = ''# Claude Code Configuration - Backend Project

## Project Overview
<!-- Describe your API/service architecture -->

## Context Management Strategy

### When to Use Subagents
- **Database queries**: Delegate schema exploration to subagents
- **API documentation**: Use subagents to search through API docs
- **Log analysis**: Isolate log file analysis in subagents
- **Dependency analysis**: Check dependencies in isolated context
- **Test runs**: Execute test suites in subagents

### Context Commands
- `/clear` between feature implementations
- `/compact` before multi-endpoint refactoring
- `think hard` for API design decisions

## Development Workflow

1. **Schema Review**: Subagent explores DB schema
2. **Planning**: Main context designs endpoint logic
3. **Implementation**: Focus on current endpoint
4. **Testing**: Subagent runs integration tests
5. **Commit**: After test verification

## API Patterns
<!-- Add your API conventions (REST, GraphQL, etc.) -->

## Database
<!-- Add your schema info or reference documentation -->

## Testing Strategy
- Unit tests required for business logic
- Integration tests for API endpoints
- Use subagents for test execution

## Escalation Rules
- Confirm before database migrations
- Ask before changing API contracts
- Verify backward compatibility
''\<close>

definition frontend_template :: string where
\<open>frontend_template = ''# Claude Code Configuration - Frontend Project

## Project Overview
<!-- Describe your frontend architecture (React, Vue, Angular, etc.) -->

## Context Management Strategy

### When to Use Subagents
- **Component searches**: Find similar components across codebase
- **Style analysis**: Isolate CSS/styling investigations
- **Bundle analysis**: Check dependencies and imports
- **Test runs**: Execute component tests in subagents
- **Build verification**: Run builds in isolated context

### Context Commands
- `/clear` between component implementations
- `/compact` before large refactoring
- `think` for component architecture decisions

## Development Workflow

1. **Component Planning**: Design component structure
2. **Implementation**: Focus on current component
3. **Styling**: Apply consistent design system
4. **Testing**: Subagent runs component tests
5. **Build Check**: Subagent verifies build

## Component Patterns
<!-- Add your component conventions -->

## Styling Approach
<!-- CSS-in-JS, Tailwind, CSS Modules, etc. -->

## State Management
<!-- Redux, Context API, Zustand, etc. -->

## Testing Strategy
- Component tests required
- Use Testing Library best practices
- Subagents handle test execution

## Escalation Rules
- Confirm before major architectural changes
- Ask before adding new dependencies
- Verify accessibility requirements
''\<close>

definition fullstack_template :: string where
\<open>fullstack_template = ''# Claude Code Configuration - Full-Stack Project

## Project Overview
<!-- Describe your full-stack architecture -->

## Context Management Strategy

### When to Use Subagents
- **Frontend searches**: Delegate component searches
- **Backend analysis**: Isolate API endpoint analysis
- **Database operations**: Schema exploration in subagents
- **Build processes**: Run builds in isolated contexts
- **Test suites**: Execute frontend and backend tests separately

### Context Commands
- `/clear` between frontend/backend context switches
- `/compact` before cross-stack refactoring
- `think hard` for architectural decisions

## Development Workflow

1. **Planning**: Design full-stack feature flow
2. **Backend First**: Implement API endpoints
3. **Frontend**: Build UI components
4. **Integration**: Connect frontend to backend
5. **Testing**: Subagents test both layers

## Stack
- **Frontend**: <!-- React, Vue, etc. -->
- **Backend**: <!-- Node.js, Python, etc. -->
- **Database**: <!-- PostgreSQL, MongoDB, etc. -->

## API Patterns
<!-- REST, GraphQL, tRPC, etc. -->

## Testing Strategy
- Unit tests for business logic
- Integration tests for APIs
- Component tests for UI
- E2E tests for critical flows

## Escalation Rules
- Confirm before database migrations
- Ask before API contract changes
- Verify cross-stack impacts
''\<close>

definition data_template :: string where
\<open>data_template = ''# Claude Code Configuration - Data Science Project

## Project Overview
<!-- Describe your data pipeline and analysis goals -->

## Context Management Strategy

### When to Use Subagents
- **Data exploration**: Delegate large dataset analysis
- **Model searches**: Find similar models in codebase
- **Documentation**: Research library documentation
- **Experiment runs**: Execute training in subagents
- **Result analysis**: Isolate metrics computation

### Context Commands
- `/clear` between experiments
- `/compact` before model refactoring
- `think harder` for model architecture decisions

## Development Workflow

1. **Data Exploration**: Subagent analyzes dataset
2. **Feature Engineering**: Design features in main context
3. **Model Development**: Implement and iterate
4. **Evaluation**: Subagent runs evaluation metrics
5. **Documentation**: Record experiment results

## Data Pipeline
<!-- Add your data sources and processing steps -->

## Model Architecture
<!-- Add your model details -->

## Experiment Tracking
<!-- MLflow, Weights & Biases, etc. -->

## Testing Strategy
- Unit tests for data processing
- Validation tests for model outputs
- Subagents handle long-running tests

## Escalation Rules
- Confirm before large dataset operations
- Ask before changing data schemas
- Verify model performance before deployment
''\<close>

definition library_template :: string where
\<open>library_template = ''# Claude Code Configuration - Library Project

## Project Overview
<!-- Describe your library's purpose and API -->

## Context Management Strategy

### When to Use Subagents
- **API searches**: Find similar functions across codebase
- **Documentation**: Research upstream dependencies
- **Example analysis**: Review usage examples
- **Test execution**: Run test suites in subagents
- **Build verification**: Check builds across versions

### Context Commands
- `/clear` between feature implementations
- `/compact` before API refactoring
- `think` for public API design

## Development Workflow

1. **API Design**: Plan function signatures
2. **Implementation**: Implement core logic
3. **Documentation**: Write docstrings and examples
4. **Testing**: Comprehensive test coverage
5. **Verification**: Subagent runs full test suite

## API Principles
- Maintain backward compatibility
- Clear, consistent naming
- Comprehensive documentation
- Type hints/annotations

## Testing Strategy
- Unit tests for all public APIs
- Integration tests for workflows
- Docstring examples as doctests
- Subagents handle test execution

## Documentation
- Docstrings required for all public APIs
- Usage examples in docs/
- Changelog maintenance

## Escalation Rules
- Confirm before breaking API changes
- Ask before adding dependencies
- Verify semantic versioning
''\<close>

definition TEMPLATES :: "(string \<times> string) list" where
  "TEMPLATES =
    [(''general'', general_template), (''backend'', backend_template),
     (''frontend'', frontend_template), (''fullstack'', fullstack_template),
     (''data'', data_template), (''library'', library_template)]"

definition generate_claude_md :: "string \<Rightarrow> string \<Rightarrow> unit io" where
  "generate_claude_md project_type output_path =
    (if project_type \<notin> set (keys TEMPLATES) then
       raise (ValueError (''Unknown project type: '' @ project_type
                          @ ''. Choose from: '' @ join '', '' (keys TEMPLATES)))
     else
       (case map_of TEMPLATES project_type of
          None \<Rightarrow> raise (KeyError project_type)
        | Some content \<Rightarrow>
       let output_file = Path output_path in
       bind_io (mkdir (parent output_file) True True) (\<lambda>_.
       write_text output_file content)))"

definition generate_claude_md_main :: "string option \<Rightarrow> string option \<Rightarrow> unit io" where
  "generate_claude_md_main type_arg output_arg =
    (case type_arg of
       Some t \<Rightarrow>
         if t \<notin> set (keys TEMPLATES)
         then raise (ArgumentError ''--type'' t (keys TEMPLATES))
         else generate_claude_md t (case output_arg of None \<Rightarrow> ''./CLAUDE.md'' | Some p \<Rightarrow> p)
     | None \<Rightarrow>
         generate_claude_md ''general'' (case output_arg of None \<Rightarrow> ''./CLAUDE.md'' | Some p \<Rightarrow> p))"


section \<open>Reading JSON back\<close>

text \<open>
  \<open>json.loads\<close> of the standard library, for the texts that denote an object whose
  values are strings and lists of strings (the values a template record holds); every
  other text is \<open>None\<close> here. It is what the statements below mean by the file "parsed
  as JSON". The text is cut into tokens first: white space between tokens is skipped,
  and inside a string a backslash starts one of the escapes of JSON (\<open>\uXXXX\<close> for a
  code point below 256, the characters of this development), and a control character
  must not stand unescaped.
\<close>

datatype token = LBrace | RBrace | LBrack | RBrack | Colon | Comma | StrTok string

datatype lmode = Outside | Inside string | Escape string | Unicode string "nat list"

definition hexval :: "char \<Rightarrow> nat option" where
  "hexval c =
    (let n = (of_char c :: nat)
     in if 48 \<le> n \<and> n \<le> 57 then Some (n - 48)
        else if 97 \<le> n \<and> n \<le> 102 then Some (n - 87)
        else if 65 \<le> n \<and> n \<le> 70 then Some (n - 55)
        else None)"

definition is_ws :: "char \<Rightarrow> bool" where
  "is_ws c \<longleftrightarrow> c = CHR '' '' \<or> c = CHR 0x0A \<or> c = CHR 0x0D \<or> c = CHR 0x09"

definition push :: "token \<Rightarrow> token list option \<Rightarrow> token list option" where
  "push t r = map_option ((#) t) r"

fun lexer :: "lmode \<Rightarrow> string \<Rightarrow> token list option" where
  "lexer Outside [] = Some []"
| "lexer (Inside a) [] = None"
| "lexer (Escape a) [] = None"
| "lexer (Unicode a ds) [] = None"
| "lexer Outside (c # cs) =
    (if is_ws c then lexer Outside cs
     else if c = CHR ''{'' then push LBrace (lexer Outside cs)
     else if c = CHR ''}'' then push RBrace (lexer Outside cs)
     else if c = CHR ''['' then push LBrack (lexer Outside cs)
     else if c = CHR '']'' then push RBrack (lexer Outside cs)
     else if c = CHR '':'' then push Colon (lexer Outside cs)
     else if c = CHR '','' then push Comma (lexer Outside cs)
     else if c = CHR 0x22 then lexer (Inside []) cs
     else None)"
| "lexer (Inside a) (c # cs) =
    (if c = CHR 0x22 then push (StrTok (rev a)) (lexer Outside cs)
     else if c = CHR 0x5C then lexer (Escape a) cs
     else if (of_char c :: nat) < 32 then None
     else lexer (Inside (c # a)) cs)"
| "lexer (Escape a) (c # cs) =
    (if c = CHR 0x22 then lexer (Inside (CHR 0x22 # a)) cs
     else if c = CHR 0x5C then lexer (Inside (CHR 0x5C # a)) cs
     else if c = CHR ''/'' then lexer (Inside (CHR ''/'' # a)) cs
     else if c = CHR ''b'' then lexer (Inside (CHR 0x08 # a)) cs
     else if c = CHR ''f'' then lexer (Inside (CHR 0x0C # a)) cs
     else if c = CHR ''n'' then lexer (Inside (CHR 0x0A # a)) cs
     else if c = CHR ''r'' then lexer (Inside (CHR 0x0D # a)) cs
     else if c = CHR ''t'' then lexer (Inside (CHR 0x09 # a)) cs
     else if c = CHR ''u'' then lexer (Unicode a []) cs
     else None)"
| "lexer (Unicode a ds) (c # cs) =
    (case hexval c of
       None \<Rightarrow> None
     | Some v \<Rightarrow>
        (case ds of
           [d1, d2, d3] \<Rightarrow>
             (let n = ((d1 * 16 + d2) * 16 + d3) * 16 + v
              in if n < 256 then lexer (Inside (char_of n # a)) cs else None)
         | _ \<Rightarrow> lexer (Unicode a (ds @ [v])) cs))"

fun elements :: "token list \<Rightarrow> (string list \<times> token list) option" where
  "elements (StrTok x # Comma # ts) =
    (case elements ts of None \<Rightarrow> None | Some (xs, r) \<Rightarrow> Some (x # xs, r))"
| "elements (StrTok x # RBrack # ts) = Some ([x], ts)"
| "elements ts = None"

fun json_value :: "token list \<Rightarrow> (pyval \<times> token list) option" where
  "json_value (StrTok x # ts) = Some (Str x, ts)"
| "json_value (LBrack # RBrack # ts) = Some (StrList [], ts)"
| "json_value (LBrack # ts) =
    (case elements ts of None \<Rightarrow> None | Some (xs, r) \<Rightarrow> Some (StrList xs, r))"
| "json_value ts = None"

lemma elements_shorter: "elements ts = Some (xs, r) \<Longrightarrow> length r < length ts"
  by (induction ts arbitrary: xs r rule: elements.induct) (auto split: option.splits)

lemma json_value_shorter: "json_value ts = Some (v, r) \<Longrightarrow> length r < length ts"
  by (induction ts rule: json_value.induct) (auto split: option.splits dest: elements_shorter)

function (sequential) members :: "token list \<Rightarrow> ((string \<times> pyval) list \<times> token list) option" where
  "members (StrTok k # Colon # ts) =
    (case json_value ts of
       None \<Rightarrow> None
     | Some (v, Comma # r) \<Rightarrow>
         (case members r of None \<Rightarrow> None | Some (ms, r') \<Rightarrow> Some ((k, v) # ms, r'))
     | Some (v, RBrace # r) \<Rightarrow> Some ([(k, v)], r)
     | Some (v, r) \<Rightarrow> None)"
| "members ts = None"
  by pat_completeness auto
termination
  by (relation "measure length") (auto dest: json_value_shorter)

text \<open>
  The dict an object denotes: the members in their order, a repeated key keeping its
  first place and its last value.
\<close>

definition json_loads :: "string \<Rightarrow> pydict option" where
  "json_loads text =
    (case lexer Outside text of
       None \<Rightarrow> None
     | Some (LBrace # RBrace # []) \<Rightarrow> Some []
     | Some (LBrace # ts) \<Rightarrow>
         (case members ts of
            Some (ms, []) \<Rightarrow> Some (foldl (\<lambda>d (k, v). AList.update k v d) [] ms)
          | _ \<Rightarrow> None)
     | Some ts \<Rightarrow> None)"


text \<open>
  The tokens of a list of strings between its brackets, and tokens put before a result.
\<close>

fun sep_tokens :: "string list \<Rightarrow> token list" where
  "sep_tokens [] = []"
| "sep_tokens [x] = [StrTok x]"
| "sep_tokens (x # y # ys) = StrTok x # Comma # sep_tokens (y # ys)"

definition pushes :: "token list \<Rightarrow> token list option \<Rightarrow> token list option" where
  "pushes ts r = map_option ((@) ts) r"


section \<open>Notions the statements use\<close>

text \<open>
  The paths \<open>create_subagent\<close> computes, named as its local variables are, and the text
  the format string stands for once its five fields are filled in.
\<close>

definition agents_dir :: "string \<Rightarrow> PosixPath" where
  "agents_dir output_dir = joinpath (joinpath (Path output_dir) ''.claude'') ''agents''"

definition agent_file :: "string \<Rightarrow> string \<Rightarrow> PosixPath" where
  "agent_file output_dir agent_name = joinpath (agents_dir output_dir) (agent_name @ ''.md'')"

definition json_file :: "string \<Rightarrow> string \<Rightarrow> PosixPath" where
  "json_file output_dir agent_name = joinpath (agents_dir output_dir) (agent_name @ ''.json'')"

definition tools_list :: "string list \<Rightarrow> string" where
  "tools_list tools = join ''\<newline>'' (map (\<lambda>tool. ''- '' @ tool) tools)"

definition md_text :: "string \<Rightarrow> string \<Rightarrow> string \<Rightarrow> string \<Rightarrow> string \<Rightarrow> string" where
  "md_text agent_name description instructions tools autonomy_description =
    ''# '' @ agent_name @ ''\<newline>\<newline>'' @ description
    @ ''\<newline>\<newline>## Instructions\<newline>\<newline>'' @ instructions
    @ ''\<newline>\<newline>## Allowed Tools\<newline>\<newline>'' @ tools
    @ ''\<newline>\<newline>## Autonomy Level\<newline>\<newline>'' @ autonomy_description @ ''\<newline>''"

text \<open>
  A process that has just loaded the module, started in the empty directory \<open>/work\<close>.
\<close>

definition fresh_state :: state where
  "fresh_state =
    \<lparr>store = module_store, next_addr = 5, cwd = [''work''],
     nodes = [[] \<mapsto> Dir, [''work''] \<mapsto> Dir]\<rparr>"

text \<open>
  A well-formed file system: the root is a directory, and whatever exists lies in a
  directory. A path is clear when no node on the way to it is a file.
\<close>

definition wf_fs :: "(string list \<Rightarrow> node option) \<Rightarrow> bool" where
  "wf_fs f \<longleftrightarrow> f [] = Some Dir \<and> (\<forall>k. k \<noteq> [] \<and> f k \<noteq> None \<longrightarrow> f (butlast k) = Some Dir)"

definition is_file :: "node option \<Rightarrow> bool" where
  "is_file n = (case n of Some (File t) \<Rightarrow> True | _ \<Rightarrow> False)"

definition clear_path :: "(string list \<Rightarrow> node option) \<Rightarrow> string list \<Rightarrow> string list \<Rightarrow> bool" where
  "clear_path f start ps \<longleftrightarrow> (\<forall>q \<in> set (prefixes ps). \<not> is_file (f (start @ q)))"

text \<open>
  How the nodes of two states compare: \<open>dirs_grow\<close> when every directory is still one,
  \<open>extends_dirs\<close> when nothing changed but for new directories.
\<close>

definition dirs_grow :: "(string list \<Rightarrow> node option) \<Rightarrow> (string list \<Rightarrow> node option) \<Rightarrow> bool" where
  "dirs_grow f g \<longleftrightarrow> (\<forall>k. f k = Some Dir \<longrightarrow> g k = Some Dir)"

definition extends_dirs :: "(string list \<Rightarrow> node option) \<Rightarrow> (string list \<Rightarrow> node option) \<Rightarrow> bool" where
  "extends_dirs f g \<longleftrightarrow> (\<forall>k. g k = f k \<or> (f k = None \<and> g k = Some Dir))"

text \<open>
  \<open>same_dirs\<close> when two states have the same directories; \<open>target\<close> is the node a
  path names for \<open>write_text\<close>: the entry called by its last part, in the directory its
  other parts lead to.
\<close>

definition same_dirs :: "(string list \<Rightarrow> node option) \<Rightarrow> (string list \<Rightarrow> node option) \<Rightarrow> bool" where
  "same_dirs f g \<longleftrightarrow> (\<forall>k. (f k = Some Dir) = (g k = Some Dir))"

definition target :: "state \<Rightarrow> PosixPath \<Rightarrow> string list option" where
  "target s p =
    (case walk_dir (nodes s) (start_dir s p) (butlast (parts p)) of
       Inl e \<Rightarrow> None
     | Inr d \<Rightarrow> if parts p = [] \<or> last (parts p) = ''..'' then None else Some (d @ [last (parts p)]))"

text \<open>
  A record with the five keys in the order of the registry's dict literals, and the
  state after a new dict object has been put on the heap.
\<close>

definition named_record :: "string \<Rightarrow> string \<Rightarrow> string \<Rightarrow> string list \<Rightarrow> string \<Rightarrow> pydict" where
  "named_record name description instructions tools autonomy =
    [(''name'', Str name), (''description'', Str description), (''instructions'', Str instructions),
     (''tools'', StrList tools), (''autonomy'', Str autonomy)]"

definition with_copy :: "state \<Rightarrow> pydict \<Rightarrow> state" where
  "with_copy s obj = s\<lparr>store := (store s)(next_addr s := obj), next_addr := Suc (next_addr s)\<rparr>"

text \<open>
  \<open>selected s t d i ts au ad\<close>: in state \<open>s\<close> the type key \<open>t\<close> is bound to the record
  with description \<open>d\<close>, instructions \<open>i\<close>, tools \<open>ts\<close> and autonomy \<open>au\<close> (its name
  being the placeholder), and \<open>ad\<close> is the description of that autonomy. \<open>emit\<close> is
  the four file-system steps of \<open>create_subagent\<close> for such a record.
\<close>

definition selected :: "state \<Rightarrow> string \<Rightarrow> string \<Rightarrow> string \<Rightarrow> string list \<Rightarrow> string \<Rightarrow> string \<Rightarrow> bool" where
  "selected s t d i ts au ad \<longleftrightarrow>
    (\<exists>a. map_of SUBAGENT_TEMPLATES t = Some a \<and> store s a = named_record ''{agent_name}'' d i ts au)
    \<and> map_of AUTONOMY_DESCRIPTIONS au = Some ad"

definition emit :: "string \<Rightarrow> string \<Rightarrow> string \<Rightarrow> string \<Rightarrow> string list \<Rightarrow> string \<Rightarrow> string \<Rightarrow> unit io" where
  "emit n out d i ts au ad =
     bind_io (mkdir (Path out) True True) (\<lambda>_.
     bind_io (mkdir (agents_dir out) True True) (\<lambda>_.
     bind_io (write_text (agent_file out n) (md_text n d i (tools_list ts) ad)) (\<lambda>_.
     write_text (json_file out n) (json_dumps (named_record n d i ts au)))))"

section \<open>The registries\<close>

lemma sublist_join: "x \<in> set xs \<Longrightarrow> sublist x (join sep xs)"
proof (induction sep xs rule: join.induct)
  case (1 sep)
  then show ?case by simp
next
  case (2 sep x')
  then show ?case by simp
next
  case (3 sep x' y ys)
  show ?case
  proof (cases "x = x'")
    case True
    then show ?thesis by simp
  next
    case False
    with 3 have "sublist x (join sep (y # ys))" by simp
    then show ?thesis by (simp add: sublist_append)
  qed
qed

lemma sublist_after: "sublist x ys \<Longrightarrow> sublist x (xs @ ys)"
  by (simp add: sublist_append)

lemma record_shape:
  assumes "a \<in> set (map snd SUBAGENT_TEMPLATES)"
  shows "\<exists>d i ts au ad. module_store a = named_record ''{agent_name}'' d i ts au
         \<and> ts \<noteq> [] \<and> map_of AUTONOMY_DESCRIPTIONS au = Some ad"
  using assms
  by (auto simp: SUBAGENT_TEMPLATES_def module_store_def researcher_def tester_def analyzer_def
      builder_def deep_analyzer_def AUTONOMY_DESCRIPTIONS_def named_record_def)

lemma valid_type_addr:
  "t \<in> set (keys SUBAGENT_TEMPLATES) \<Longrightarrow>
     \<exists>a. map_of SUBAGENT_TEMPLATES t = Some a \<and> a \<in> set (map snd SUBAGENT_TEMPLATES)"
  by (auto simp: keys_def SUBAGENT_TEMPLATES_def)

lemma fresh_state_loaded: "registry_loaded fresh_state"
  by (simp add: registry_loaded_def fresh_state_def SUBAGENT_TEMPLATES_def)

text \<open>
  C4. Every type key of the agent registry is bound to a record whose \<open>tools\<close> is a
  non-empty list and whose \<open>autonomy\<close> is a key of \<open>AUTONOMY_DESCRIPTIONS\<close>, so that the
  lookup of the autonomy description returns; every type key of \<open>TEMPLATES\<close> is bound
  to its template. This holds in every state in which the registry is as the module
  loaded it.
\<close>

theorem registry_records_resolve:
  assumes "registry_loaded s"
  shows "(\<forall>t \<in> set (keys SUBAGENT_TEMPLATES).
            \<exists>a tools autonomy d.
              map_of SUBAGENT_TEMPLATES t = Some a
              \<and> map_of (store s a) ''tools'' = Some (StrList tools) \<and> tools \<noteq> []
              \<and> map_of (store s a) ''autonomy'' = Some (Str autonomy)
              \<and> autonomy \<in> set (keys AUTONOMY_DESCRIPTIONS)
              \<and> lookup_autonomy (Str autonomy) s = (Inr d, s))
       \<and> (\<forall>t \<in> set (keys TEMPLATES). \<exists>content. map_of TEMPLATES t = Some content)"
proof (intro conjI ballI)
  fix t assume "t \<in> set (keys SUBAGENT_TEMPLATES)"
  then obtain a where a: "map_of SUBAGENT_TEMPLATES t = Some a"
    and mem: "a \<in> set (map snd SUBAGENT_TEMPLATES)"
    using valid_type_addr by blast
  from record_shape[OF mem] obtain d i ts au ad where
    r: "module_store a = named_record ''{agent_name}'' d i ts au"
    and ts: "ts \<noteq> []" and ad: "map_of AUTONOMY_DESCRIPTIONS au = Some ad"
    by blast
  from assms mem have st: "store s a = module_store a" by (auto simp: registry_loaded_def)
  from ad have "au \<in> set (keys AUTONOMY_DESCRIPTIONS)"
    by (auto simp: keys_def dest: map_of_SomeD intro: rev_image_eqI)
  with a r ts ad st
  show "\<exists>a tools autonomy d.
          map_of SUBAGENT_TEMPLATES t = Some a
          \<and> map_of (store s a) ''tools'' = Some (StrList tools) \<and> tools \<noteq> []
          \<and> map_of (store s a) ''autonomy'' = Some (Str autonomy)
          \<and> autonomy \<in> set (keys AUTONOMY_DESCRIPTIONS)
          \<and> lookup_autonomy (Str autonomy) s = (Inr d, s)"
    by (simp add: lookup_autonomy_def ok_def named_record_def)
next
  fix t assume "t \<in> set (keys TEMPLATES)"
  then show "\<exists>content. map_of TEMPLATES t = Some content"
    by (auto simp: keys_def TEMPLATES_def)
qed

theorem registry_records_resolve_witness:
  "registry_loaded fresh_state
   \<and> ''tester'' \<in> set (keys SUBAGENT_TEMPLATES)
   \<and> (\<exists>a tools autonomy d.
         map_of SUBAGENT_TEMPLATES ''tester'' = Some a
         \<and> map_of (store fresh_state a) ''tools'' = Some (StrList tools) \<and> tools \<noteq> []
         \<and> map_of (store fresh_state a) ''autonomy'' = Some (Str autonomy)
         \<and> autonomy \<in> set (keys AUTONOMY_DESCRIPTIONS)
         \<and> lookup_autonomy (Str autonomy) fresh_state = (Inr d, fresh_state))
   \<and> map_of (store fresh_state 1) ''tools'' = Some (StrList [''bash'', ''read'', ''write''])
   \<and> map_of (store fresh_state 1) ''autonomy'' = Some (Str ''high'')
   \<and> ''library'' \<in> set (keys TEMPLATES)
   \<and> (\<exists>content. map_of TEMPLATES ''library'' = Some content)"
proof -
  have m: "''tester'' \<in> set (keys SUBAGENT_TEMPLATES)"
    by (simp add: keys_def SUBAGENT_TEMPLATES_def)
  have l: "''library'' \<in> set (keys TEMPLATES)"
    by (simp add: keys_def TEMPLATES_def)
  note t = registry_records_resolve[OF fresh_state_loaded]
  note t1 = bspec[OF conjunct1[OF t] m]
  note t2 = bspec[OF conjunct2[OF t] l]
  have c1: "map_of (store fresh_state 1) ''tools'' = Some (StrList [''bash'', ''read'', ''write''])"
    by (simp add: fresh_state_def module_store_def tester_def)
  have c2: "map_of (store fresh_state 1) ''autonomy'' = Some (Str ''high'')"
    by (simp add: fresh_state_def module_store_def tester_def)
  from fresh_state_loaded m t1 c1 c2 l t2 show ?thesis by (intro conjI)
qed

text \<open>
  C1. A type key that is not in the registry makes either script fail before it touches
  anything: \<open>create_subagent\<close> and \<open>generate_claude_md\<close> raise \<open>ValueError\<close> and leave
  the state, and with it the file system, as it was, and the message holds every key of
  the registry; from the command line argparse refuses the key first, exits with status
  2 and lists the keys, and again the state is as it was.
\<close>

theorem unknown_type_fails_before_any_write:
  "(agent_type \<notin> set (keys SUBAGENT_TEMPLATES) \<longrightarrow>
      (\<exists>msg. create_subagent agent_name agent_type output_dir s = (Inl (ValueError msg), s)
             \<and> (\<forall>k \<in> set (keys SUBAGENT_TEMPLATES). sublist k msg))
      \<and> create_subagent_main agent_name (Some agent_type) output_arg s
          = (Inl (ArgumentError ''--type'' agent_type (keys SUBAGENT_TEMPLATES)), s)
      \<and> exit_status (fst (create_subagent_main agent_name (Some agent_type) output_arg s)) = 2)
   \<and> (project_type \<notin> set (keys TEMPLATES) \<longrightarrow>
      (\<exists>msg. generate_claude_md project_type output_path s = (Inl (ValueError msg), s)
             \<and> (\<forall>k \<in> set (keys TEMPLATES). sublist k msg))
      \<and> generate_claude_md_main (Some project_type) output_arg s
          = (Inl (ArgumentError ''--type'' project_type (keys TEMPLATES)), s)
      \<and> exit_status (fst (generate_claude_md_main (Some project_type) output_arg s)) = 2)"
proof (intro conjI impI)
  assume bad: "agent_type \<notin> set (keys SUBAGENT_TEMPLATES)"
  let ?msg = "''Unknown agent type: '' @ agent_type @ ''. ''
                @ ''Choose from: '' @ join '', '' (keys SUBAGENT_TEMPLATES)"
  have "create_subagent agent_name agent_type output_dir s = (Inl (ValueError ?msg), s)"
    using bad by (simp add: create_subagent_def raise_def)
  moreover have "\<forall>k \<in> set (keys SUBAGENT_TEMPLATES). sublist k ?msg"
    by (intro ballI sublist_after sublist_join)
  ultimately show "\<exists>msg. create_subagent agent_name agent_type output_dir s = (Inl (ValueError msg), s)
             \<and> (\<forall>k \<in> set (keys SUBAGENT_TEMPLATES). sublist k msg)"
    by blast
  show m: "create_subagent_main agent_name (Some agent_type) output_arg s
          = (Inl (ArgumentError ''--type'' agent_type (keys SUBAGENT_TEMPLATES)), s)"
    using bad by (simp add: create_subagent_main_def raise_def)
  show "exit_status (fst (create_subagent_main agent_name (Some agent_type) output_arg s)) = 2"
    by (simp add: m exit_status_def)
next
  assume bad: "project_type \<notin> set (keys TEMPLATES)"
  let ?msg = "''Unknown project type: '' @ project_type
                @ ''. Choose from: '' @ join '', '' (keys TEMPLATES)"
  have "generate_claude_md project_type output_path s = (Inl (ValueError ?msg), s)"
    using bad by (simp add: generate_claude_md_def raise_def)
  moreover have "\<forall>k \<in> set (keys TEMPLATES). sublist k ?msg"
    by (intro ballI sublist_after sublist_join)
  ultimately show "\<exists>msg. generate_claude_md project_type output_path s = (Inl (ValueError msg), s)
             \<and> (\<forall>k \<in> set (keys TEMPLATES). sublist k msg)"
    by blast
  show m: "generate_claude_md_main (Some project_type) output_arg s
          = (Inl (ArgumentError ''--type'' project_type (keys TEMPLATES)), s)"
    using bad by (simp add: generate_claude_md_main_def raise_def)
  show "exit_status (fst (generate_claude_md_main (Some project_type) output_arg s)) = 2"
    by (simp add: m exit_status_def)
qed

theorem unknown_type_fails_before_any_write_witness:
  "''nonexistent'' \<notin> set (keys SUBAGENT_TEMPLATES)
   \<and> create_subagent ''doc-searcher'' ''nonexistent'' ''.'' fresh_state
       = (Inl (ValueError ''Unknown agent type: nonexistent. Choose from: researcher, tester, analyzer, builder, deep_analyzer''),
          fresh_state)
   \<and> sublist ''deep_analyzer'' ''Unknown agent type: nonexistent. Choose from: researcher, tester, analyzer, builder, deep_analyzer''
   \<and> create_subagent_main ''doc-searcher'' (Some ''nonexistent'') None fresh_state
       = (Inl (ArgumentError ''--type'' ''nonexistent''
                [''researcher'', ''tester'', ''analyzer'', ''builder'', ''deep_analyzer'']), fresh_state)
   \<and> ''nonexistent'' \<notin> set (keys TEMPLATES)
   \<and> generate_claude_md ''nonexistent'' ''./CLAUDE.md'' fresh_state
       = (Inl (ValueError ''Unknown project type: nonexistent. Choose from: general, backend, frontend, fullstack, data, library''),
          fresh_state)
   \<and> generate_claude_md_main (Some ''nonexistent'') None fresh_state
       = (Inl (ArgumentError ''--type'' ''nonexistent''
                [''general'', ''backend'', ''frontend'', ''fullstack'', ''data'', ''library'']), fresh_state)"
proof -
  have a: "''nonexistent'' \<notin> set (keys SUBAGENT_TEMPLATES)"
    by (simp add: keys_def SUBAGENT_TEMPLATES_def)
  have b: "''nonexistent'' \<notin> set (keys TEMPLATES)"
    by (simp add: keys_def TEMPLATES_def)
  have k: "keys SUBAGENT_TEMPLATES = [''researcher'', ''tester'', ''analyzer'', ''builder'', ''deep_analyzer'']"
    by (simp add: keys_def SUBAGENT_TEMPLATES_def)
  have k2: "keys TEMPLATES = [''general'', ''backend'', ''frontend'', ''fullstack'', ''data'', ''library'']"
    by (simp add: keys_def TEMPLATES_def)
  have c: "create_subagent ''doc-searcher'' ''nonexistent'' ''.'' fresh_state
       = (Inl (ValueError ''Unknown agent type: nonexistent. Choose from: researcher, tester, analyzer, builder, deep_analyzer''),
          fresh_state)"
    using a by (simp add: create_subagent_def raise_def k)
  have d: "generate_claude_md ''nonexistent'' ''./CLAUDE.md'' fresh_state
       = (Inl (ValueError ''Unknown project type: nonexistent. Choose from: general, backend, frontend, fullstack, data, library''),
          fresh_state)"
    using b by (simp add: generate_claude_md_def raise_def k2)
  note t = unknown_type_fails_before_any_write
             [where agent_type = "''nonexistent''" and agent_name = "''doc-searcher''"
                and output_dir = "''.''" and s = fresh_state and output_arg = None
                and project_type = "''nonexistent''" and output_path = "''./CLAUDE.md''"]
  from t a obtain msg where
    m1: "create_subagent ''doc-searcher'' ''nonexistent'' ''.'' fresh_state = (Inl (ValueError msg), fresh_state)"
    and m2: "\<forall>k \<in> set (keys SUBAGENT_TEMPLATES). sublist k msg"
    by blast
  from m1 c have "msg = ''Unknown agent type: nonexistent. Choose from: researcher, tester, analyzer, builder, deep_analyzer''"
    by simp
  moreover have "''deep_analyzer'' \<in> set (keys SUBAGENT_TEMPLATES)" by (simp add: k)
  ultimately have e: "sublist ''deep_analyzer'' ''Unknown agent type: nonexistent. Choose from: researcher, tester, analyzer, builder, deep_analyzer''"
    using m2 by blast
  from t a have f: "create_subagent_main ''doc-searcher'' (Some ''nonexistent'') None fresh_state
       = (Inl (ArgumentError ''--type'' ''nonexistent''
                [''researcher'', ''tester'', ''analyzer'', ''builder'', ''deep_analyzer'']), fresh_state)"
    unfolding k by blast
  from t b have g: "generate_claude_md_main (Some ''nonexistent'') None fresh_state
       = (Inl (ArgumentError ''--type'' ''nonexistent''
                [''general'', ''backend'', ''frontend'', ''fullstack'', ''data'', ''library'']), fresh_state)"
    unfolding k2 by blast
  from a c e f b d g show ?thesis by (intro conjI)
qed

section \<open>Facts about the file system calls\<close>

declare mkdir.simps [simp del]

lemma extends_dirs_refl: "extends_dirs f f"
  by (simp add: extends_dirs_def)

lemma extends_dirs_trans: "extends_dirs f g \<Longrightarrow> extends_dirs g h \<Longrightarrow> extends_dirs f h"
  unfolding extends_dirs_def by (metis node.distinct(1) option.distinct(1) option.inject)

lemma extends_dirs_grow: "extends_dirs f g \<Longrightarrow> dirs_grow f g"
  unfolding extends_dirs_def dirs_grow_def by (metis option.distinct(1))

lemma walk_append:
  "walk f cur (xs @ ys) = (case walk f cur xs of Inl e \<Rightarrow> Inl e | Inr d \<Rightarrow> walk f d ys)"
  by (induction xs arbitrary: cur) (auto split: option.splits node.splits)

lemma walk_mono: "dirs_grow f g \<Longrightarrow> walk f cur cs = Inr d \<Longrightarrow> walk g cur cs = Inr d"
proof (induction cs arbitrary: cur)
  case Nil
  then show ?case by simp
next
  case (Cons c cs)
  from Cons.prems(2) have "f cur = Some Dir"
    by (auto split: option.splits node.splits)
  with Cons.prems(1) have "g cur = Some Dir" by (simp add: dirs_grow_def)
  with Cons \<open>f cur = Some Dir\<close> show ?case by simp
qed

lemma walk_dir_Inr: "walk_dir f cur cs = Inr d \<longleftrightarrow> walk f cur cs = Inr d \<and> f d = Some Dir"
  unfolding walk_dir_def by (auto split: sum.splits option.splits node.splits)

lemma walk_dir_mono: "dirs_grow f g \<Longrightarrow> walk_dir f cur cs = Inr d \<Longrightarrow> walk_dir g cur cs = Inr d"
  using walk_mono[of f g cur cs d] by (auto simp: walk_dir_Inr) (simp add: dirs_grow_def)

lemma os_mkdir_frame:
  "os_mkdir p s = (r, s') \<Longrightarrow> store s' = store s \<and> next_addr s' = next_addr s \<and> cwd s' = cwd s"
  by (auto simp: os_mkdir_def split: sum.splits if_splits option.splits)

lemma os_mkdir_Inl: "os_mkdir p s = (Inl e, s') \<Longrightarrow> s' = s"
  by (auto simp: os_mkdir_def split: sum.splits if_splits option.splits)

lemma os_mkdir_Inr:
  assumes "os_mkdir p s = (Inr u, s')"
  shows "\<exists>d. parts p \<noteq> [] \<and> last (parts p) \<noteq> ''..''
           \<and> walk_dir (nodes s) (start_dir s p) (butlast (parts p)) = Inr d
           \<and> nodes s (d @ [last (parts p)]) = None
           \<and> s' = s\<lparr>nodes := (nodes s)(d @ [last (parts p)] \<mapsto> Dir)\<rparr>"
  using assms by (auto simp: os_mkdir_def split: sum.splits if_splits option.splits)

lemma mkdir_steps:
  assumes refl: "\<And>s. R s s"
    and trans: "\<And>a b c. R a b \<Longrightarrow> R b c \<Longrightarrow> R a c"
    and step: "\<And>p s r s'. os_mkdir p s = (r, s') \<Longrightarrow> R s s'"
  shows "mkdir p a b s = (r, s') \<Longrightarrow> R s s'"
proof (induction p a b s arbitrary: r s' rule: mkdir.induct)
  case (1 p parents exist_ok s)
  obtain r0 s0 where m: "os_mkdir p s = (r0, s0)" by fastforce
  note fr = step[OF m]
  note eq = "1.prems"[unfolded mkdir.simps[of p parents exist_ok s]]
  show ?case
  proof (cases r0)
    case (Inr u)
    with m eq fr show ?thesis by simp
  next
    case (Inl e)
    show ?thesis
    proof (cases "e = FileNotFoundError \<and> parents \<and> parent p \<noteq> p")
      case False
      with m Inl eq refl show ?thesis by (auto split: if_splits)
    next
      case True
      obtain r1 s1 where m1: "mkdir (parent p) True True s = (r1, s1)" by fastforce
      have f1: "R s s1"
        using "1.IH"(1)[OF m[symmetric] Inl _ _ m1] True by simp
      show ?thesis
      proof (cases r1)
        case (Inl e1)
        with m \<open>r0 = Inl e\<close> True m1 eq f1 show ?thesis by simp
      next
        case (Inr u1)
        with m \<open>r0 = Inl e\<close> True m1 eq
        have m2: "mkdir p False exist_ok s1 = (r, s')" by simp
        have "R s1 s'"
          using "1.IH"(2)[OF m[symmetric] \<open>r0 = Inl e\<close> _ _ m1[symmetric] Inr m2] True by simp
        with f1 show ?thesis by (rule trans)
      qed
    qed
  qed
qed

lemma mkdir_frame:
  "mkdir p a b s = (r, s') \<Longrightarrow> store s' = store s \<and> next_addr s' = next_addr s \<and> cwd s' = cwd s"
  by (rule mkdir_steps[where R = "\<lambda>s s'. store s' = store s \<and> next_addr s' = next_addr s \<and> cwd s' = cwd s"])
     (auto dest: os_mkdir_frame)

lemma os_mkdir_extends: "os_mkdir p s = (r, s') \<Longrightarrow> extends_dirs (nodes s) (nodes s')"
  by (cases r) (auto dest!: os_mkdir_Inl os_mkdir_Inr simp: extends_dirs_def split: if_splits)

lemma mkdir_extends: "mkdir p a b s = (r, s') \<Longrightarrow> extends_dirs (nodes s) (nodes s')"
  by (rule mkdir_steps[where R = "\<lambda>s s'. extends_dirs (nodes s) (nodes s')"])
     (auto intro: extends_dirs_refl extends_dirs_trans os_mkdir_extends)

lemma mkdir_noparents:
  "mkdir p False b s =
    (case os_mkdir p s of
       (Inr u, s') \<Rightarrow> (Inr (), s')
     | (Inl e, s') \<Rightarrow>
         if e = FileNotFoundError then (Inl e, s)
         else if \<not> b \<or> \<not> is_dir p s then (Inl e, s) else (Inr (), s))"
  by (simp add: mkdir.simps[of p False b s] split: prod.splits sum.splits)

lemma os_mkdir_is_dir:
  assumes "os_mkdir p s = (Inr u, s')"
  shows "is_dir p s'"
proof -
  from os_mkdir_Inr[OF assms] obtain d where
    ne: "parts p \<noteq> []" and l: "last (parts p) \<noteq> ''..''"
    and w: "walk_dir (nodes s) (start_dir s p) (butlast (parts p)) = Inr d"
    and s': "s' = s\<lparr>nodes := (nodes s)(d @ [last (parts p)] \<mapsto> Dir)\<rparr>"
    by blast
  have g: "dirs_grow (nodes s) (nodes s')"
    using os_mkdir_extends[OF assms] by (rule extends_dirs_grow)
  from walk_dir_mono[OF g w] have w': "walk (nodes s') (start_dir s p) (butlast (parts p)) = Inr d"
    and d': "nodes s' d = Some Dir"
    by (simp_all add: walk_dir_Inr)
  have "walk (nodes s') (start_dir s p) (butlast (parts p) @ [last (parts p)]) = Inr (d @ [last (parts p)])"
    using w' d' l by (simp add: walk_append)
  with ne have "walk (nodes s') (start_dir s p) (parts p) = Inr (d @ [last (parts p)])" by simp
  moreover have "nodes s' (d @ [last (parts p)]) = Some Dir" by (simp add: s')
  moreover have "start_dir s' p = start_dir s p" by (simp add: s' start_dir_def)
  ultimately show ?thesis by (simp add: is_dir_def walk_dir_def)
qed

lemma mkdir_noparents_is_dir:
  assumes "mkdir p False b s = (Inr u, s')"
  shows "is_dir p s'"
proof -
  obtain r0 s0 where m: "os_mkdir p s = (r0, s0)" by fastforce
  show ?thesis
  proof (cases r0)
    case (Inr v)
    with m assms have "s0 = s'" by (simp add: mkdir_noparents)
    with m Inr os_mkdir_is_dir show ?thesis by blast
  next
    case (Inl e)
    with m assms show ?thesis by (auto simp: mkdir_noparents split: if_splits)
  qed
qed

lemma mkdir_is_dir:
  assumes "mkdir p a b s = (Inr u, s')"
  shows "is_dir p s'"
proof (cases a)
  case False
  with assms show ?thesis by (auto dest: mkdir_noparents_is_dir)
next
  case True
  obtain r0 s0 where m: "os_mkdir p s = (r0, s0)" by fastforce
  note eq = assms[unfolded mkdir.simps[of p a b s]]
  show ?thesis
  proof (cases r0)
    case (Inr v)
    with m eq have "s0 = s'" by simp
    with m Inr os_mkdir_is_dir show ?thesis by blast
  next
    case (Inl e)
    obtain r1 s1 where m1: "mkdir (parent p) True True s = (r1, s1)" by fastforce
    from m Inl eq m1 True show ?thesis
      by (auto split: if_splits sum.splits dest: mkdir_noparents_is_dir)
  qed
qed

lemma is_dir_os_mkdir:
  assumes "is_dir p s"
  shows "os_mkdir p s = (Inl FileExistsError, s)"
proof (cases "parts p = []")
  case True
  with assms show ?thesis
    by (auto simp: is_dir_def os_mkdir_def split: sum.splits)
next
  case False
  from assms obtain k where w: "walk (nodes s) (start_dir s p) (parts p) = Inr k"
    and k: "nodes s k = Some Dir"
    by (auto simp: is_dir_def walk_dir_Inr split: sum.splits)
  from False have "parts p = butlast (parts p) @ [last (parts p)]" by simp
  with w have w2: "walk (nodes s) (start_dir s p) (butlast (parts p) @ [last (parts p)]) = Inr k" by simp
  then obtain d where wd: "walk (nodes s) (start_dir s p) (butlast (parts p)) = Inr d"
    and st: "walk (nodes s) d [last (parts p)] = Inr k"
    by (auto simp: walk_append split: sum.splits)
  from st have dd: "nodes s d = Some Dir"
    and kk: "k = (if last (parts p) = ''..'' then butlast d else d @ [last (parts p)])"
    by (auto split: option.splits node.splits)
  from wd dd have "walk_dir (nodes s) (start_dir s p) (butlast (parts p)) = Inr d"
    by (simp add: walk_dir_Inr)
  with False kk k show ?thesis by (auto simp: os_mkdir_def)
qed

lemma is_dir_mkdir:
  assumes "is_dir p s"
  shows "mkdir p a True s = (Inr (), s)"
  using assms is_dir_os_mkdir[OF assms] by (simp add: mkdir.simps[of p a True s])

lemma is_dir_mono: "dirs_grow (nodes s) (nodes s') \<Longrightarrow> cwd s' = cwd s \<Longrightarrow> is_dir p s \<Longrightarrow> is_dir p s'"
proof -
  assume g: "dirs_grow (nodes s) (nodes s')" and c: "cwd s' = cwd s" and d: "is_dir p s"
  from d obtain k where "walk_dir (nodes s) (start_dir s p) (parts p) = Inr k"
    by (auto simp: is_dir_def split: sum.splits)
  from walk_dir_mono[OF g this] c show ?thesis
    by (auto simp: is_dir_def start_dir_def split: if_splits)
qed

subsection \<open>Writing and reading back\<close>

lemma same_dirs_grow: "same_dirs f g \<Longrightarrow> dirs_grow f g \<and> dirs_grow g f"
  by (simp add: same_dirs_def dirs_grow_def)

lemma write_text_frame:
  "write_text p c s = (r, s') \<Longrightarrow> store s' = store s \<and> next_addr s' = next_addr s \<and> cwd s' = cwd s"
  by (auto simp: write_text_def split: sum.splits if_splits option.splits node.splits)

lemma write_text_Inl: "write_text p c s = (Inl e, s') \<Longrightarrow> s' = s"
  by (auto simp: write_text_def split: sum.splits if_splits option.splits node.splits)




lemma write_text_Inr:
  assumes "write_text p c s = (Inr u, s')"
  shows "\<exists>k. target s p = Some k \<and> nodes s k \<noteq> Some Dir
           \<and> s' = s\<lparr>nodes := (nodes s)(k \<mapsto> File c)\<rparr>"
  using assms
  by (auto simp: write_text_def target_def split: sum.splits if_splits option.splits node.splits)

lemma target_write_text:
  assumes "target s p = Some k" "nodes s k \<noteq> Some Dir"
  shows "write_text p c s = (Inr (), s\<lparr>nodes := (nodes s)(k \<mapsto> File c)\<rparr>)"
  using assms
  by (auto simp: write_text_def target_def split: sum.splits if_splits option.splits node.splits)

lemma file_at_target:
  "file_at s p =
    (case target s p of
       None \<Rightarrow> None
     | Some k \<Rightarrow> (case nodes s k of Some (File t) \<Rightarrow> Some t | _ \<Rightarrow> None))"
  by (auto simp: file_at_def target_def split: sum.splits)

lemma target_last: "target s p = Some k \<Longrightarrow> k \<noteq> [] \<and> last k = last (parts p)"
  by (auto simp: target_def split: sum.splits if_splits)

lemma target_mono:
  assumes "target s p = Some k" "dirs_grow (nodes s) (nodes s')" "cwd s' = cwd s"
  shows "target s' p = Some k"
proof -
  from assms(1) obtain d where w: "walk_dir (nodes s) (start_dir s p) (butlast (parts p)) = Inr d"
    and k: "parts p \<noteq> []" "last (parts p) \<noteq> ''..''" "k = d @ [last (parts p)]"
    by (auto simp: target_def split: sum.splits if_splits)
  from walk_dir_mono[OF assms(2) w] assms(3) k show ?thesis
    by (auto simp: target_def start_dir_def split: if_splits)
qed

lemma write_text_same_dirs:
  "write_text p c s = (r, s') \<Longrightarrow> same_dirs (nodes s) (nodes s')"
  by (cases r) (auto dest!: write_text_Inl write_text_Inr simp: same_dirs_def split: if_splits)

lemma write_text_file_at:
  assumes "write_text p c s = (Inr u, s')"
  shows "file_at s' p = Some c"
proof -
  from write_text_Inr[OF assms] obtain k where t: "target s p = Some k"
    and s': "s' = s\<lparr>nodes := (nodes s)(k \<mapsto> File c)\<rparr>" by blast
  have "dirs_grow (nodes s) (nodes s')"
    using write_text_same_dirs[OF assms] same_dirs_grow by blast
  moreover have "cwd s' = cwd s" by (simp add: s')
  ultimately have "target s' p = Some k" using t target_mono by blast
  then show ?thesis by (simp add: file_at_target s')
qed

lemma file_at_kept:
  assumes "file_at s p = Some c" "write_text q c' s = (Inr u, s')" "last (parts q) \<noteq> last (parts p)"
  shows "file_at s' p = Some c"
proof -
  from assms(1) obtain k where t: "target s p = Some k" and n: "nodes s k = Some (File c)"
    by (auto simp: file_at_target split: option.splits node.splits)
  from write_text_Inr[OF assms(2)] obtain k' where t': "target s q = Some k'"
    and s': "s' = s\<lparr>nodes := (nodes s)(k' \<mapsto> File c')\<rparr>" by blast
  from target_last[OF t] target_last[OF t'] assms(3) have ne: "k \<noteq> k'" by auto
  have "dirs_grow (nodes s) (nodes s')"
    using write_text_same_dirs[OF assms(2)] same_dirs_grow by blast
  moreover have "cwd s' = cwd s" by (simp add: s')
  ultimately have "target s' p = Some k" using t target_mono by blast
  with n ne show ?thesis by (simp add: file_at_target s')
qed

lemma write_text_again:
  assumes "file_at s p = Some c"
  shows "write_text p c s = (Inr (), s)"
proof -
  from assms obtain k where t: "target s p = Some k" and n: "nodes s k = Some (File c)"
    by (auto simp: file_at_target split: option.splits node.splits)
  then have "write_text p c s = (Inr (), s\<lparr>nodes := (nodes s)(k \<mapsto> File c)\<rparr>)"
    by (intro target_write_text) simp_all
  moreover from n have "(nodes s)(k \<mapsto> File c) = nodes s" by (rule map_upd_triv)
  ultimately show ?thesis by simp
qed

subsection \<open>Splitting a path string\<close>

lemma split_not_Nil: "split c s \<noteq> []"
  by (induction s) (auto split: list.splits)

lemma split_no_sep: "c \<notin> set s \<Longrightarrow> split c s = [s]"
  by (induction s) auto

lemma split_append_last:
  "c \<notin> set t \<Longrightarrow> split c (s @ t) = butlast (split c s) @ [last (split c s) @ t]"
proof (induction s)
  case Nil
  then show ?case by (simp add: split_no_sep)
next
  case (Cons x s)
  then show ?case using split_not_Nil[of c s] split_not_Nil[of c "s @ t"]
    by (auto split: list.splits simp: butlast_append)
qed

subsection \<open>Paths without \<open>..\<close> in a well-formed file system\<close>

lemma walk_dir_Nil: "walk_dir f cur [] = Inr d \<longleftrightarrow> d = cur \<and> f cur = Some Dir"
  by (auto simp: walk_dir_def split: option.splits node.splits)

lemma walk_dir_Cons:
  "walk_dir f cur (c # cs) =
    (case f cur of
       None \<Rightarrow> Inl FileNotFoundError
     | Some (File x) \<Rightarrow> Inl NotADirectoryError
     | Some Dir \<Rightarrow> walk_dir f (if c = ''..'' then butlast cur else cur @ [c]) cs)"
  by (simp add: walk_dir_def split: option.splits node.splits)

lemma walk_dir_plain:
  "''..'' \<notin> set cs \<Longrightarrow>
     walk_dir f cur cs = Inr d \<longleftrightarrow> d = cur @ cs \<and> (\<forall>q. prefix q cs \<longrightarrow> f (cur @ q) = Some Dir)"
proof (induction cs arbitrary: cur)
  case Nil
  then show ?case by (auto simp: walk_dir_Nil)
next
  case (Cons c cs)
  then have c: "c \<noteq> ''..''" and cs: "''..'' \<notin> set cs" by auto
  show ?case
  proof (cases "f cur = Some Dir")
    case False
    then have "walk_dir f cur (c # cs) \<noteq> Inr d"
      by (auto simp: walk_dir_Cons split: option.splits node.splits)
    moreover from False have "\<not> (\<forall>q. prefix q (c # cs) \<longrightarrow> f (cur @ q) = Some Dir)"
      by (auto intro: exI[of _ "[]"])
    ultimately show ?thesis by blast
  next
    case True
    then have "walk_dir f cur (c # cs) = walk_dir f (cur @ [c]) cs"
      using c by (simp add: walk_dir_Cons)
    also have "\<dots> = Inr d \<longleftrightarrow> d = (cur @ [c]) @ cs \<and> (\<forall>q. prefix q cs \<longrightarrow> f ((cur @ [c]) @ q) = Some Dir)"
      by (rule Cons.IH[OF cs])
    also have "\<dots> \<longleftrightarrow> d = cur @ c # cs \<and> (\<forall>q. prefix q (c # cs) \<longrightarrow> f (cur @ q) = Some Dir)"
      using True by (auto simp: prefix_Cons)
    finally show ?thesis .
  qed
qed

lemma clear_path_prefix: "clear_path f cur cs \<longleftrightarrow> (\<forall>q. prefix q cs \<longrightarrow> \<not> is_file (f (cur @ q)))"
  by (auto simp: clear_path_def in_set_prefixes)

lemma walk_dir_clear_error:
  "clear_path f cur cs \<Longrightarrow> ''..'' \<notin> set cs \<Longrightarrow> walk_dir f cur cs = Inl e \<Longrightarrow> e = FileNotFoundError"
proof (induction cs arbitrary: cur)
  case Nil
  then show ?case
    by (auto simp: walk_dir_def clear_path_prefix is_file_def split: option.splits node.splits)
next
  case (Cons c cs)
  from Cons.prems(1) have nf: "\<not> is_file (f cur)"
    by (auto simp: clear_path_prefix dest: spec[of _ "[]"])
  from Cons.prems(1) have cl: "clear_path f (cur @ [c]) cs"
    by (auto simp: clear_path_prefix prefix_Cons)
  from Cons.prems(2) have c: "c \<noteq> ''..''" and cs: "''..'' \<notin> set cs" by auto
  show ?case
  proof (cases "f cur")
    case None
    with Cons.prems(3) show ?thesis by (simp add: walk_dir_Cons)
  next
    case (Some x)
    with nf have "f cur = Some Dir" by (cases x) (auto simp: is_file_def)
    with Cons.prems(3) c have "walk_dir f (cur @ [c]) cs = Inl e" by (simp add: walk_dir_Cons)
    from Cons.IH[OF cl cs this] show ?thesis .
  qed
qed

lemma wf_fs_parent: "wf_fs f \<Longrightarrow> f (k @ [x]) \<noteq> None \<Longrightarrow> f k = Some Dir"
  unfolding wf_fs_def by (metis butlast_snoc snoc_eq_iff_butlast)

lemma wf_fs_ancestors:
  "wf_fs f \<Longrightarrow> f (k @ q) \<noteq> None \<Longrightarrow> prefix q' q \<Longrightarrow> q' \<noteq> q \<Longrightarrow> f (k @ q') = Some Dir"
proof (induction q arbitrary: q' rule: rev_induct)
  case Nil
  then show ?case by simp
next
  case (snoc x xs)
  from snoc.prems(1,2) have p: "f (k @ xs) = Some Dir"
    using wf_fs_parent[of f "k @ xs" x] by simp
  from snoc.prems(3,4) have "prefix q' xs" by (auto simp: prefix_snoc)
  show ?case
  proof (cases "q' = xs")
    case True
    with p show ?thesis by simp
  next
    case False
    from snoc.IH[OF snoc.prems(1) _ \<open>prefix q' xs\<close> False] p show ?thesis by simp
  qed
qed

lemma start_dir_parent: "start_dir s (parent p) = start_dir s p"
  by (simp add: start_dir_def parent_def)

lemma is_dir_plain:
  assumes "''..'' \<notin> set (parts p)"
  shows "is_dir p s \<longleftrightarrow> (\<forall>q. prefix q (parts p) \<longrightarrow> nodes s (start_dir s p @ q) = Some Dir)"
proof -
  have "is_dir p s \<longleftrightarrow> (\<exists>d. walk_dir (nodes s) (start_dir s p) (parts p) = Inr d)"
    by (auto simp: is_dir_def split: sum.splits)
  then show ?thesis by (simp add: walk_dir_plain[OF assms])
qed

lemma mkdir_plain:
  assumes wf: "wf_fs (nodes s)"
    and st: "nodes s (start_dir s p) = Some Dir"
    and dd: "''..'' \<notin> set (parts p)"
    and cl: "clear_path (nodes s) (start_dir s p) (parts p)"
  shows "\<exists>s'. mkdir p True True s = (Inr (), s')
          \<and> (\<forall>k. nodes s' k \<noteq> nodes s k \<longrightarrow> (\<exists>q. prefix q (parts p) \<and> k = start_dir s p @ q))"
  using st dd cl
proof (induction "parts p" arbitrary: p rule: rev_induct)
  case Nil
  from Nil(1)[symmetric] Nil(2) have "is_dir p s"
    by (simp add: is_dir_def walk_dir_def)
  from is_dir_mkdir[OF this] show ?case by auto
next
  case (snoc x qs)
  let ?st = "start_dir s p"
  let ?f = "nodes s"
  note ps = snoc(2)[symmetric]
  from snoc(4) ps have x: "x \<noteq> ''..''" and qs: "''..'' \<notin> set qs" by auto
  have pp: "parts (parent p) = qs" by (simp add: parent_def ps)
  have ne: "parent p \<noteq> p"
  proof
    assume "parent p = p"
    then have "parts (parent p) = parts p" by simp
    with pp ps show False by simp
  qed
  from snoc(5) ps have clq: "clear_path ?f ?st qs"
    by (auto simp: clear_path_prefix prefix_snoc)
  from snoc(5) ps have nf: "\<not> is_file (?f (?st @ qs @ [x]))"
    by (auto simp: clear_path_prefix)
  show ?case
  proof (cases "is_dir p s")
    case True
    from is_dir_mkdir[OF True] show ?thesis by auto
  next
    case nd: False
    show ?thesis
    proof (cases "walk_dir ?f ?st qs")
      case (Inr d)
      with qs have d: "d = ?st @ qs" and all: "\<forall>q. prefix q qs \<longrightarrow> ?f (?st @ q) = Some Dir"
        by (simp_all add: walk_dir_plain)
      have "?f (?st @ qs @ [x]) \<noteq> Some Dir"
      proof
        assume "?f (?st @ qs @ [x]) = Some Dir"
        with all have "\<forall>q. prefix q (qs @ [x]) \<longrightarrow> ?f (?st @ q) = Some Dir"
          by (auto simp: prefix_snoc)
        with nd snoc(4) ps show False by (simp add: is_dir_plain)
      qed
      with nf have none: "?f (?st @ qs @ [x]) = None"
        by (cases "?f (?st @ qs @ [x])") (auto simp: is_file_def split: node.splits)
      have "os_mkdir p s = (Inr (), s\<lparr>nodes := (?f)(?st @ qs @ [x] \<mapsto> Dir)\<rparr>)"
        using Inr d none x by (simp add: os_mkdir_def ps)
      then have "mkdir p True True s = (Inr (), s\<lparr>nodes := (?f)(?st @ qs @ [x] \<mapsto> Dir)\<rparr>)"
        by (simp add: mkdir.simps[of p True True s])
      moreover have "\<forall>k. ((?f)(?st @ qs @ [x] \<mapsto> Dir)) k \<noteq> ?f k \<longrightarrow> (\<exists>q. prefix q (parts p) \<and> k = ?st @ q)"
        by (auto simp: ps split: if_splits)
      ultimately show ?thesis by simp
    next
      case (Inl e)
      from walk_dir_clear_error[OF clq qs Inl] have e: "e = FileNotFoundError" .
      have om: "os_mkdir p s = (Inl FileNotFoundError, s)"
        using Inl e by (simp add: os_mkdir_def ps)
      have st': "start_dir s (parent p) = ?st" by (rule start_dir_parent)
      from snoc(1)[of "parent p"] pp snoc(3) qs clq st'
      obtain s1 where m1: "mkdir (parent p) True True s = (Inr (), s1)"
        and ch1: "\<forall>k. nodes s1 k \<noteq> ?f k \<longrightarrow> (\<exists>q. prefix q qs \<and> k = ?st @ q)"
        by auto
      from om m1 ne have unf: "mkdir p True True s = mkdir p False True s1"
        by (simp add: mkdir.simps[of p True True s])
      have st1: "start_dir s1 p = ?st"
        using mkdir_frame[OF m1] by (simp add: start_dir_def)
      from mkdir_is_dir[OF m1] have "is_dir (parent p) s1" .
      then have all1: "\<forall>q. prefix q qs \<longrightarrow> nodes s1 (?st @ q) = Some Dir"
        using qs pp st1 by (simp add: is_dir_plain start_dir_def parent_def)
      then have w1: "walk_dir (nodes s1) ?st qs = Inr (?st @ qs)"
        using qs by (simp add: walk_dir_plain)
      have same: "nodes s1 (?st @ qs @ [x]) = ?f (?st @ qs @ [x])"
      proof (rule ccontr)
        assume "nodes s1 (?st @ qs @ [x]) \<noteq> ?f (?st @ qs @ [x])"
        with ch1 obtain q where "prefix q qs" "?st @ qs @ [x] = ?st @ q" by blast
        then show False by (auto dest: prefix_length_le)
      qed
      have none: "?f (?st @ qs @ [x]) = None"
      proof (rule ccontr)
        assume a: "?f (?st @ qs @ [x]) \<noteq> None"
        have "\<forall>q. prefix q qs \<longrightarrow> ?f (?st @ q) = Some Dir"
        proof (intro allI impI)
          fix q assume "prefix q qs"
          then have "prefix q (qs @ [x])" "q \<noteq> qs @ [x]"
            by (auto dest: prefix_length_le)
          from wf_fs_ancestors[OF wf a this] show "?f (?st @ q) = Some Dir" .
        qed
        then have "walk_dir ?f ?st qs = Inr (?st @ qs)" using qs by (simp add: walk_dir_plain)
        with Inl show False by simp
      qed
      have "os_mkdir p s1 = (Inr (), s1\<lparr>nodes := (nodes s1)(?st @ qs @ [x] \<mapsto> Dir)\<rparr>)"
        using w1 same none x st1 by (simp add: os_mkdir_def ps)
      then have "mkdir p False True s1 = (Inr (), s1\<lparr>nodes := (nodes s1)(?st @ qs @ [x] \<mapsto> Dir)\<rparr>)"
        by (simp add: mkdir_noparents)
      with unf have res: "mkdir p True True s = (Inr (), s1\<lparr>nodes := (nodes s1)(?st @ qs @ [x] \<mapsto> Dir)\<rparr>)"
        by simp
      have "\<forall>k. ((nodes s1)(?st @ qs @ [x] \<mapsto> Dir)) k \<noteq> ?f k \<longrightarrow> (\<exists>q. prefix q (parts p) \<and> k = ?st @ q)"
      proof (intro allI impI)
        fix k assume c: "((nodes s1)(?st @ qs @ [x] \<mapsto> Dir)) k \<noteq> ?f k"
        show "\<exists>q. prefix q (parts p) \<and> k = ?st @ q"
        proof (cases "k = ?st @ qs @ [x]")
          case True
          then show ?thesis by (auto simp: ps)
        next
          case False
          with c have "nodes s1 k \<noteq> ?f k" by simp
          with ch1 obtain q where "prefix q qs" "k = ?st @ q" by blast
          then show ?thesis by (auto simp: ps prefix_snoc)
        qed
      qed
      with res show ?thesis by simp
    qed
  qed
qed

subsection \<open>Errors, well-formedness, and states with the same files\<close>



lemma os_mkdir_wf:
  assumes "wf_fs (nodes s)" "os_mkdir p s = (r, s')"
  shows "wf_fs (nodes s')"
proof (cases r)
  case (Inl e)
  with assms os_mkdir_Inl show ?thesis by blast
next
  case (Inr u)
  with assms(2) os_mkdir_Inr obtain d where
    w: "walk_dir (nodes s) (start_dir s p) (butlast (parts p)) = Inr d"
    and none: "nodes s (d @ [last (parts p)]) = None"
    and s': "s' = s\<lparr>nodes := (nodes s)(d @ [last (parts p)] \<mapsto> Dir)\<rparr>"
    by blast
  from w have d: "nodes s d = Some Dir" by (simp add: walk_dir_Inr)
  show ?thesis
    unfolding wf_fs_def
  proof (intro conjI allI impI)
    from assms(1) show "nodes s' [] = Some Dir" by (simp add: s' wf_fs_def)
  next
    fix k assume k: "k \<noteq> [] \<and> nodes s' k \<noteq> None"
    show "nodes s' (butlast k) = Some Dir"
    proof (cases "k = d @ [last (parts p)]")
      case True
      with d show ?thesis by (simp add: s')
    next
      case False
      with k have "nodes s k \<noteq> None" by (simp add: s')
      with k assms(1) have "nodes s (butlast k) = Some Dir" by (simp add: wf_fs_def)
      with none show ?thesis by (auto simp: s')
    qed
  qed
qed

lemma mkdir_wf: "mkdir p a b s = (r, s') \<Longrightarrow> wf_fs (nodes s) \<Longrightarrow> wf_fs (nodes s')"
proof -
  assume m: "mkdir p a b s = (r, s')"
  have "wf_fs (nodes s) \<longrightarrow> wf_fs (nodes s')"
    by (rule mkdir_steps[where R = "\<lambda>s s'. wf_fs (nodes s) \<longrightarrow> wf_fs (nodes s')", OF _ _ _ m])
       (auto dest: os_mkdir_wf)
  then show "wf_fs (nodes s) \<Longrightarrow> wf_fs (nodes s')" by simp
qed

lemma file_at_cong: "nodes s = nodes t \<Longrightarrow> cwd s = cwd t \<Longrightarrow> file_at s p = file_at t p"
  by (auto simp: file_at_def start_dir_def split: sum.splits)

lemma is_dir_cong: "nodes s = nodes t \<Longrightarrow> cwd s = cwd t \<Longrightarrow> is_dir p s = is_dir p t"
  by (simp add: is_dir_def start_dir_def)

lemma target_cong: "nodes s = nodes t \<Longrightarrow> cwd s = cwd t \<Longrightarrow> target s p = target t p"
  by (simp add: target_def start_dir_def)

lemma with_copy_simps:
  "nodes (with_copy s obj) = nodes s" "cwd (with_copy s obj) = cwd s"
  "next_addr (with_copy s obj) = Suc (next_addr s)"
  "store (with_copy s obj) = (store s)(next_addr s := obj)"
  by (simp_all add: with_copy_def)

lemma extends_dirs_file:
  assumes "extends_dirs f g" "is_file (g k)"
  shows "is_file (f k)"
proof -
  from assms(1) have "g k = f k \<or> (f k = None \<and> g k = Some Dir)"
    by (simp add: extends_dirs_def)
  with assms(2) show ?thesis by (auto simp: is_file_def)
qed

lemma extends_dirs_clear: "extends_dirs f g \<Longrightarrow> clear_path f cur cs \<Longrightarrow> clear_path g cur cs"
  unfolding clear_path_def by (blast dest: extends_dirs_file)

subsection \<open>The paths of the two files\<close>

lemma format_CLAUDE_CODE_FORMAT:
  "format CLAUDE_CODE_FORMAT
     [(''agent_name'', Str n), (''description'', Str d), (''instructions'', Str i),
      (''tools'', Str tls), (''autonomy_description'', Str ad)]
   = Inr (md_text n d i tls ad)"
  by (simp add: format_def CLAUDE_CODE_FORMAT_def get_field_def prepend_def md_text_def)

lemma agents_dir_parts:
  "agents_dir out = \<lparr>absolute = absolute (Path out), parts = parts (Path out) @ [''.claude'', ''agents'']\<rparr>"
  by (simp add: agents_dir_def joinpath_def Path_def starts_with_slash_def)

lemma starts_with_slash_append:
  "CHR ''/'' \<notin> set t \<Longrightarrow> starts_with_slash (n @ t) = starts_with_slash n"
  by (cases n; cases t) (auto simp: starts_with_slash_def)

lemma Path_suffix:
  assumes "CHR ''/'' \<notin> set t" "2 \<le> length t"
  shows "parts (Path (n @ t))
         = filter (\<lambda>p. p \<noteq> [] \<and> p \<noteq> ''.'') (butlast (split CHR ''/'' n)) @ [last (split CHR ''/'' n) @ t]"
proof -
  from assms(2) have "last (split CHR ''/'' n) @ t \<noteq> []" by auto
  moreover from assms(2) have "last (split CHR ''/'' n) @ t \<noteq> ''.''"
    by (auto simp: append_eq_Cons_conv)
  ultimately show ?thesis
    by (simp add: Path_def split_append_last[OF assms(1)])
qed

lemma joinpath_suffix:
  assumes "CHR ''/'' \<notin> set t" "2 \<le> length t"
  shows "\<exists>pre. parts (joinpath p (n @ t)) = pre @ [last (split CHR ''/'' n) @ t]"
  using Path_suffix[OF assms, of n]
  by (auto simp: joinpath_def)

lemma joinpath_plain:
  assumes "CHR ''/'' \<notin> set n"
  shows "joinpath p n = p\<lparr>parts := parts p @ filter (\<lambda>p. p \<noteq> [] \<and> p \<noteq> ''.'') [n]\<rparr>"
  using assms by (cases n) (auto simp: joinpath_def Path_def starts_with_slash_def split_no_sep)

lemma agent_file_last:
  "parts (agent_file out n) \<noteq> [] \<and> last (parts (agent_file out n)) = last (split CHR ''/'' n) @ ''.md''"
  using joinpath_suffix[of "''.md''" "agents_dir out" n] by (auto simp: agent_file_def)

lemma json_file_last:
  "parts (json_file out n) \<noteq> [] \<and> last (parts (json_file out n)) = last (split CHR ''/'' n) @ ''.json''"
  using joinpath_suffix[of "''.json''" "agents_dir out" n] by (auto simp: json_file_def)

lemma md_json_differ: "last (parts (json_file out n)) \<noteq> last (parts (agent_file out n))"
  by (simp add: agent_file_last json_file_last)

lemma agent_file_plain:
  assumes "CHR ''/'' \<notin> set n"
  shows "agent_file out n = \<lparr>absolute = absolute (Path out), parts = parts (Path out) @ [''.claude'', ''agents'', n @ ''.md'']\<rparr>"
  using assms by (simp add: agent_file_def agents_dir_parts joinpath_plain append_eq_Cons_conv)

lemma json_file_plain:
  assumes "CHR ''/'' \<notin> set n"
  shows "json_file out n = \<lparr>absolute = absolute (Path out), parts = parts (Path out) @ [''.claude'', ''agents'', n @ ''.json'']\<rparr>"
  using assms by (simp add: json_file_def agents_dir_parts joinpath_plain append_eq_Cons_conv)

section \<open>What a call of \<open>create_subagent\<close> does\<close>

lemma with_copy_alt:
  "s\<lparr>next_addr := Suc (next_addr s), store := (store s)(next_addr s := obj)\<rparr> = with_copy s obj"
  by (simp add: with_copy_def)

lemma tools_list_alt: "join ''\<newline>'' (map ((@) ''- '') xs) = tools_list xs"
  unfolding tools_list_def by (rule refl)

lemma create_subagent_loaded:
  assumes l: "registry_loaded s" and a: "map_of SUBAGENT_TEMPLATES t = Some a"
    and r: "module_store a = named_record ph d i ts au"
    and ad: "map_of AUTONOMY_DESCRIPTIONS au = Some ad"
  shows "create_subagent n t out s =
     bind_io (mkdir (Path out) True True) (\<lambda>_.
     bind_io (mkdir (agents_dir out) True True) (\<lambda>_.
     bind_io (write_text (agent_file out n) (md_text n d i (tools_list ts) ad)) (\<lambda>_.
     write_text (json_file out n) (json_dumps (named_record n d i ts au)))))
     (with_copy s (named_record n d i ts au))"
proof -
  let ?rec = "named_record n d i ts au"
  let ?s1 = "with_copy s ?rec"
  let ?t = "next_addr s"
  from a have valid: "t \<in> set (keys SUBAGENT_TEMPLATES)"
    by (auto simp: keys_def dest: map_of_SomeD intro: rev_image_eqI)
  from a have "a \<in> set (map snd SUBAGENT_TEMPLATES)"
    by (auto dest: map_of_SomeD intro: rev_image_eqI)
  with l r have st: "store s a = named_record ph d i ts au"
    by (auto simp: registry_loaded_def)
  have upd: "AList.update ''name'' (Str n) (named_record ph d i ts au) = ?rec"
    by (simp add: named_record_def)
  have start: "create_subagent n t out s =
      bind_io (mkdir (Path out) True True) (\<lambda>_.
       bind_io (mkdir (agents_dir out) True True) (\<lambda>_.
       bind_io (getitem ?t ''tools'') (\<lambda>tools.
       bind_io (getitem ?t ''autonomy'') (\<lambda>autonomy.
       bind_io (lookup_autonomy autonomy) (\<lambda>autonomy_desc.
       bind_io (getitem ?t ''description'') (\<lambda>description.
       bind_io (getitem ?t ''instructions'') (\<lambda>instructions.
       bind_io (lift (format CLAUDE_CODE_FORMAT
                  [(''agent_name'', Str n),
                   (''description'', description),
                   (''instructions'', instructions),
                   (''tools'', Str (tools_list (py_iter tools))),
                   (''autonomy_description'', Str autonomy_desc)])) (\<lambda>content.
       bind_io (write_text (agent_file out n) content) (\<lambda>_.
       bind_io (load ?t) (\<lambda>obj.
       write_text (json_file out n) (json_dumps obj))))))))))) ?s1"
    using valid a
    by (simp add: create_subagent_def bind_io_def[of "dict_copy a"] bind_io_def[of "setitem (next_addr s) ''name'' (Str n)"]
        dict_copy_def setitem_def st upd with_copy_alt Let_def agents_dir_def agent_file_def
        json_file_def tools_list_alt)
  have rest: "bind_io (getitem ?t ''tools'') (\<lambda>tools.
       bind_io (getitem ?t ''autonomy'') (\<lambda>autonomy.
       bind_io (lookup_autonomy autonomy) (\<lambda>autonomy_desc.
       bind_io (getitem ?t ''description'') (\<lambda>description.
       bind_io (getitem ?t ''instructions'') (\<lambda>instructions.
       bind_io (lift (format CLAUDE_CODE_FORMAT
                  [(''agent_name'', Str n),
                   (''description'', description),
                   (''instructions'', instructions),
                   (''tools'', Str (tools_list (py_iter tools))),
                   (''autonomy_description'', Str autonomy_desc)])) (\<lambda>content.
       bind_io (write_text (agent_file out n) content) (\<lambda>_.
       bind_io (load ?t) (\<lambda>obj.
       write_text (json_file out n) (json_dumps obj))))))))) s3
     = bind_io (write_text (agent_file out n) (md_text n d i (tools_list ts) ad)) (\<lambda>_.
        write_text (json_file out n) (json_dumps ?rec)) s3"
    if s3: "store s3 = store ?s1" for s3
  proof -
    have rec3: "store s3 ?t = ?rec" by (simp add: s3 with_copy_def)
    obtain r3 s4 where w: "write_text (agent_file out n) (md_text n d i (tools_list ts) ad) s3 = (r3, s4)"
      by fastforce
    from write_text_frame[OF w] rec3 have rec4: "store s4 ?t = ?rec" by simp
    show ?thesis
      by (simp add: bind_io_def getitem_def rec3 named_record_def[of n] lookup_autonomy_def ad ok_def
          lift_def format_CLAUDE_CODE_FORMAT w load_def rec4[unfolded named_record_def]
          split: sum.splits)
  qed
  obtain r1 s2 where m1: "mkdir (Path out) True True ?s1 = (r1, s2)" by fastforce
  obtain r2 s3 where m2: "mkdir (agents_dir out) True True s2 = (r2, s3)" by fastforce
  from mkdir_frame[OF m1] mkdir_frame[OF m2] have "store s3 = store ?s1" by simp
  note rest[OF this]
  with m1 m2 show ?thesis
    unfolding start by (simp add: bind_io_def split: sum.splits)
qed

lemma valid_selected:
  assumes "registry_loaded s" "t \<in> set (keys SUBAGENT_TEMPLATES)"
  shows "\<exists>d i ts au ad. selected s t d i ts au ad \<and> ts \<noteq> []"
proof -
  from assms(2) obtain a where a: "map_of SUBAGENT_TEMPLATES t = Some a"
    and mem: "a \<in> set (map snd SUBAGENT_TEMPLATES)"
    using valid_type_addr by blast
  from assms(1) mem have st: "store s a = module_store a" by (auto simp: registry_loaded_def)
  from record_shape[OF mem] obtain d i ts au ad where
    r: "module_store a = named_record ''{agent_name}'' d i ts au"
    and ts: "ts \<noteq> []" and ad: "map_of AUTONOMY_DESCRIPTIONS au = Some ad"
    by blast
  from a st r ad have "selected s t d i ts au ad" unfolding selected_def by auto
  with ts show ?thesis by blast
qed

lemma selected_valid: "selected s t d i ts au ad \<Longrightarrow> t \<in> set (keys SUBAGENT_TEMPLATES)"
  by (auto simp: selected_def keys_def dest: map_of_SomeD intro: rev_image_eqI)

lemma selected_unique:
  assumes "selected s t d i ts au ad" "selected s t d' i' ts' au' ad'"
  shows "d' = d \<and> i' = i \<and> ts' = ts \<and> au' = au \<and> ad' = ad"
  using assms by (auto simp: selected_def named_record_def)

lemma create_subagent_emit:
  assumes l: "registry_loaded s" and sel: "selected s t d i ts au ad"
  shows "create_subagent n t out s = emit n out d i ts au ad (with_copy s (named_record n d i ts au))"
proof -
  from sel obtain a where a: "map_of SUBAGENT_TEMPLATES t = Some a"
    and st: "store s a = named_record ''{agent_name}'' d i ts au"
    and ad: "map_of AUTONOMY_DESCRIPTIONS au = Some ad"
    by (auto simp: selected_def)
  from a have "a \<in> set (map snd SUBAGENT_TEMPLATES)"
    by (auto dest: map_of_SomeD intro: rev_image_eqI)
  with l st have "module_store a = named_record ''{agent_name}'' d i ts au"
    by (auto simp: registry_loaded_def)
  from create_subagent_loaded[OF l a this ad] show ?thesis by (simp add: emit_def)
qed

lemma emit_Inr:
  assumes "emit n out d i ts au ad s1 = (Inr u, s')"
  shows "\<exists>s2 s3 s4.
           mkdir (Path out) True True s1 = (Inr (), s2)
         \<and> mkdir (agents_dir out) True True s2 = (Inr (), s3)
         \<and> write_text (agent_file out n) (md_text n d i (tools_list ts) ad) s3 = (Inr (), s4)
         \<and> write_text (json_file out n) (json_dumps (named_record n d i ts au)) s4 = (Inr (), s')"
  using assms by (auto simp: emit_def bind_io_def split: prod.splits sum.splits)

lemma emit_InrI:
  assumes "mkdir (Path out) True True s1 = (Inr (), s2)"
    "mkdir (agents_dir out) True True s2 = (Inr (), s3)"
    "write_text (agent_file out n) (md_text n d i (tools_list ts) ad) s3 = (Inr (), s4)"
    "write_text (json_file out n) (json_dumps (named_record n d i ts au)) s4 = (Inr (), s')"
  shows "emit n out d i ts au ad s1 = (Inr (), s')"
  using assms by (simp add: emit_def bind_io_def)

lemma emit_frame:
  assumes "emit n out d i ts au ad s1 = (r, s')"
  shows "store s' = store s1 \<and> next_addr s' = next_addr s1 \<and> cwd s' = cwd s1"
proof -
  obtain r1 s2 where m1: "mkdir (Path out) True True s1 = (r1, s2)" by fastforce
  obtain r2 s3 where m2: "mkdir (agents_dir out) True True s2 = (r2, s3)" by fastforce
  obtain r3 s4 where w1: "write_text (agent_file out n) (md_text n d i (tools_list ts) ad) s3 = (r3, s4)"
    by fastforce
  obtain r4 s5 where w2: "write_text (json_file out n) (json_dumps (named_record n d i ts au)) s4 = (r4, s5)"
    by fastforce
  note f = mkdir_frame[OF m1] mkdir_frame[OF m2] write_text_frame[OF w1] write_text_frame[OF w2]
  from assms m1 m2 w1 w2 have "s' = s2 \<or> s' = s3 \<or> s' = s4 \<or> s' = s5"
    by (auto simp: emit_def bind_io_def split: sum.splits)
  with f show ?thesis by auto
qed


lemma emit_files:
  assumes "emit n out d i ts au ad s1 = (Inr u, s')"
  shows "file_at s' (agent_file out n) = Some (md_text n d i (tools_list ts) ad)
       \<and> file_at s' (json_file out n) = Some (json_dumps (named_record n d i ts au))
       \<and> is_dir (Path out) s' \<and> is_dir (agents_dir out) s'"
proof -
  from emit_Inr[OF assms] obtain s2 s3 s4 where
    m1: "mkdir (Path out) True True s1 = (Inr (), s2)"
    and m2: "mkdir (agents_dir out) True True s2 = (Inr (), s3)"
    and w1: "write_text (agent_file out n) (md_text n d i (tools_list ts) ad) s3 = (Inr (), s4)"
    and w2: "write_text (json_file out n) (json_dumps (named_record n d i ts au)) s4 = (Inr (), s')"
    by blast
  have g2: "dirs_grow (nodes s2) (nodes s3)" using mkdir_extends[OF m2] by (rule extends_dirs_grow)
  have g3: "dirs_grow (nodes s3) (nodes s4)" using write_text_same_dirs[OF w1] same_dirs_grow by blast
  have g4: "dirs_grow (nodes s4) (nodes s')" using write_text_same_dirs[OF w2] same_dirs_grow by blast
  note c = mkdir_frame[OF m2] write_text_frame[OF w1] write_text_frame[OF w2]
  have "is_dir (Path out) s2" by (rule mkdir_is_dir[OF m1])
  then have "is_dir (Path out) s3" using g2 c by (auto intro: is_dir_mono)
  then have "is_dir (Path out) s4" using g3 c by (auto intro: is_dir_mono)
  then have d1: "is_dir (Path out) s'" using g4 c by (auto intro: is_dir_mono)
  have "is_dir (agents_dir out) s3" by (rule mkdir_is_dir[OF m2])
  then have "is_dir (agents_dir out) s4" using g3 c by (auto intro: is_dir_mono)
  then have d2: "is_dir (agents_dir out) s'" using g4 c by (auto intro: is_dir_mono)
  have "file_at s4 (agent_file out n) = Some (md_text n d i (tools_list ts) ad)"
    by (rule write_text_file_at[OF w1])
  from file_at_kept[OF this w2 md_json_differ]
  have f1: "file_at s' (agent_file out n) = Some (md_text n d i (tools_list ts) ad)" .
  have f2: "file_at s' (json_file out n) = Some (json_dumps (named_record n d i ts au))"
    by (rule write_text_file_at[OF w2])
  from f1 f2 d1 d2 show ?thesis by simp
qed

lemma emit_again:
  assumes "emit n out d i ts au ad s1 = (Inr u, s')" "nodes t = nodes s'" "cwd t = cwd s'"
  shows "emit n out d i ts au ad t = (Inr (), t)"
proof -
  note f = emit_files[OF assms(1)]
  from f is_dir_cong[OF assms(2,3)] have "is_dir (Path out) t" "is_dir (agents_dir out) t" by simp_all
  then have m: "mkdir (Path out) True True t = (Inr (), t)" "mkdir (agents_dir out) True True t = (Inr (), t)"
    by (simp_all add: is_dir_mkdir)
  from f file_at_cong[OF assms(2,3)]
  have "file_at t (agent_file out n) = Some (md_text n d i (tools_list ts) ad)"
    "file_at t (json_file out n) = Some (json_dumps (named_record n d i ts au))" by simp_all
  then have w: "write_text (agent_file out n) (md_text n d i (tools_list ts) ad) t = (Inr (), t)"
    "write_text (json_file out n) (json_dumps (named_record n d i ts au)) t = (Inr (), t)"
    by (simp_all add: write_text_again)
  from m w show ?thesis by (rule emit_InrI)
qed

lemma with_copy_registry:
  assumes "registry_loaded s" "a \<in> set (map snd SUBAGENT_TEMPLATES)"
  shows "store (with_copy s obj) a = store s a"
  using assms by (auto simp: registry_loaded_def with_copy_def)

lemma with_copy_loaded:
  assumes "registry_loaded s"
  shows "registry_loaded (with_copy s obj)"
  using assms by (auto simp: registry_loaded_def with_copy_def)

lemma with_copy_selected:
  assumes "registry_loaded s" "selected s t d i ts au ad"
  shows "selected (with_copy s obj) t d i ts au ad"
proof -
  from assms(2) obtain a where a: "map_of SUBAGENT_TEMPLATES t = Some a"
    and st: "store s a = named_record ''{agent_name}'' d i ts au"
    and ad: "map_of AUTONOMY_DESCRIPTIONS au = Some ad"
    by (auto simp: selected_def)
  from a have "a \<in> set (map snd SUBAGENT_TEMPLATES)"
    by (auto dest: map_of_SomeD intro: rev_image_eqI)
  from with_copy_registry[OF assms(1) this] st
  have "store (with_copy s obj) a = named_record ''{agent_name}'' d i ts au" by simp
  with a ad show ?thesis unfolding selected_def by auto
qed

lemma loaded_frame:
  assumes "registry_loaded s" "store s' = store s" "next_addr s' = next_addr s"
  shows "registry_loaded s'"
    and "selected s t d i ts au ad \<Longrightarrow> selected s' t d i ts au ad"
  using assms by (auto simp: registry_loaded_def selected_def)

lemma absolute_agents_dir: "absolute (agents_dir out) = absolute (Path out)"
  by (simp add: agents_dir_parts)

lemma start_dir_agents: "start_dir s (agents_dir out) = start_dir s (Path out)"
  by (simp add: start_dir_def absolute_agents_dir)

lemma start_dir_nodes: "start_dir (s\<lparr>nodes := f\<rparr>) p = start_dir s p"
  by (simp add: start_dir_def)

lemma write_plain:
  assumes d: "is_dir q s" and dd: "''..'' \<notin> set (parts q)"
    and p: "parts p = parts q @ [x]" "absolute p = absolute q" and x: "x \<noteq> ''..''"
    and nd: "nodes s (start_dir s q @ parts q @ [x]) \<noteq> Some Dir"
  shows "write_text p c s = (Inr (), s\<lparr>nodes := (nodes s)(start_dir s q @ parts q @ [x] \<mapsto> File c)\<rparr>)"
proof -
  from d dd have "walk_dir (nodes s) (start_dir s q) (parts q) = Inr (start_dir s q @ parts q)"
    by (simp add: is_dir_plain walk_dir_plain)
  moreover have "start_dir s p = start_dir s q" by (simp add: start_dir_def p)
  ultimately have "target s p = Some (start_dir s q @ parts q @ [x])"
    using x by (simp add: target_def p)
  from target_write_text[OF this nd] show ?thesis .
qed

lemma emit_plain:
  assumes wf: "wf_fs (nodes s1)"
    and st: "nodes s1 (start_dir s1 (Path out)) = Some Dir"
    and dd: "''..'' \<notin> set (parts (Path out))"
    and sl: "CHR ''/'' \<notin> set n"
    and cl: "clear_path (nodes s1) (start_dir s1 (Path out)) (parts (agents_dir out))"
    and t1: "nodes s1 (start_dir s1 (Path out) @ parts (agent_file out n)) \<noteq> Some Dir"
    and t2: "nodes s1 (start_dir s1 (Path out) @ parts (json_file out n)) \<noteq> Some Dir"
  shows "\<exists>s'. emit n out d i ts au ad s1 = (Inr (), s')"
proof -
  let ?st = "start_dir s1 (Path out)"
  let ?ps = "parts (Path out)"
  let ?as = "?ps @ [''.claude'', ''agents'']"
  have as: "parts (agents_dir out) = ?as" by (simp add: agents_dir_parts)
  have mdp: "parts (agent_file out n) = ?as @ [n @ ''.md'']"
    and jsp: "parts (json_file out n) = ?as @ [n @ ''.json'']"
    using sl by (simp_all add: agent_file_plain json_file_plain)
  have mda: "absolute (agent_file out n) = absolute (agents_dir out)"
    and jsa: "absolute (json_file out n) = absolute (agents_dir out)"
    using sl by (simp_all add: agent_file_plain json_file_plain agents_dir_parts)
  have dda: "''..'' \<notin> set (parts (agents_dir out))" using dd by (simp add: as)
  from cl have cl0: "clear_path (nodes s1) ?st ?ps"
    by (auto simp: clear_path_prefix as)
  from mkdir_plain[OF wf st dd cl0] obtain s2 where
    m1: "mkdir (Path out) True True s1 = (Inr (), s2)"
    and ch1: "\<forall>k. nodes s2 k \<noteq> nodes s1 k \<longrightarrow> (\<exists>q. prefix q ?ps \<and> k = ?st @ q)"
    by blast
  note f1 = mkdir_frame[OF m1]
  have e1: "extends_dirs (nodes s1) (nodes s2)" by (rule mkdir_extends[OF m1])
  have wf2: "wf_fs (nodes s2)" by (rule mkdir_wf[OF m1 wf])
  have st2: "start_dir s2 (agents_dir out) = ?st"
    using f1 by (simp add: start_dir_def absolute_agents_dir)
  have std2: "nodes s2 (start_dir s2 (agents_dir out)) = Some Dir"
    using st e1 extends_dirs_grow[OF e1] by (simp add: st2 dirs_grow_def)
  have cl2: "clear_path (nodes s2) (start_dir s2 (agents_dir out)) (parts (agents_dir out))"
    using extends_dirs_clear[OF e1 cl] by (simp add: st2)
  from mkdir_plain[OF wf2 std2 dda cl2] obtain s3 where
    m2: "mkdir (agents_dir out) True True s2 = (Inr (), s3)"
    and ch2: "\<forall>k. nodes s3 k \<noteq> nodes s2 k \<longrightarrow> (\<exists>q. prefix q ?as \<and> k = ?st @ q)"
    by (auto simp: st2 as)
  note f2 = mkdir_frame[OF m2]
  have st3: "start_dir s3 (agents_dir out) = ?st"
    using f1 f2 by (simp add: start_dir_def absolute_agents_dir)
  have d3: "is_dir (agents_dir out) s3" by (rule mkdir_is_dir[OF m2])
  have unchanged: "nodes s3 (?st @ ?as @ [x]) = nodes s1 (?st @ ?as @ [x])" for x
  proof -
    have a: "nodes s2 (?st @ ?as @ [x]) = nodes s1 (?st @ ?as @ [x])"
    proof (rule ccontr)
      assume "nodes s2 (?st @ ?as @ [x]) \<noteq> nodes s1 (?st @ ?as @ [x])"
      with ch1 obtain q where "prefix q ?ps" "?st @ ?as @ [x] = ?st @ q" by blast
      then show False by (auto dest: prefix_length_le)
    qed
    have "nodes s3 (?st @ ?as @ [x]) = nodes s2 (?st @ ?as @ [x])"
    proof (rule ccontr)
      assume "nodes s3 (?st @ ?as @ [x]) \<noteq> nodes s2 (?st @ ?as @ [x])"
      with ch2 obtain q where "prefix q ?as" "?st @ ?as @ [x] = ?st @ q" by blast
      then show False by (auto dest: prefix_length_le)
    qed
    with a show ?thesis by simp
  qed
  have x1: "n @ ''.md'' \<noteq> ''..''" and x2: "n @ ''.json'' \<noteq> ''..''"
    by (auto simp: append_eq_Cons_conv)
  let ?km = "?st @ ?as @ [n @ ''.md'']"
  let ?kj = "?st @ ?as @ [n @ ''.json'']"
  let ?md = "md_text n d i (tools_list ts) ad"
  let ?js = "json_dumps (named_record n d i ts au)"
  from t1 have nd1: "nodes s3 (start_dir s3 (agents_dir out) @ parts (agents_dir out) @ [n @ ''.md'']) \<noteq> Some Dir"
    using unchanged[of "n @ ''.md''"] by (simp add: st3 as mdp)
  from write_plain[OF d3 dda _ mda x1 nd1, of ?md] mdp
  have w1: "write_text (agent_file out n) ?md s3 = (Inr (), s3\<lparr>nodes := (nodes s3)(?km \<mapsto> File ?md)\<rparr>)"
    by (simp add: as st3)
  let ?s4 = "s3\<lparr>nodes := (nodes s3)(?km \<mapsto> File ?md)\<rparr>"
  have "same_dirs (nodes s3) (nodes ?s4)" by (rule write_text_same_dirs[OF w1])
  then have g4: "dirs_grow (nodes s3) (nodes ?s4)" using same_dirs_grow by blast
  have d4: "is_dir (agents_dir out) ?s4" by (rule is_dir_mono[OF g4 _ d3]) simp
  from t2 have nd2: "nodes ?s4 (start_dir ?s4 (agents_dir out) @ parts (agents_dir out) @ [n @ ''.json'']) \<noteq> Some Dir"
    using unchanged[of "n @ ''.json''"] by (simp add: start_dir_nodes st3 as jsp)
  from write_plain[OF d4 dda _ jsa x2 nd2, of ?js] jsp
  obtain s5 where w2: "write_text (json_file out n) ?js ?s4 = (Inr (), s5)"
    by (simp add: as)
  from emit_InrI[OF m1 m2 w1 w2] show ?thesis by blast
qed

section \<open>The state after a call\<close>

lemma encode_keys:
  \<open>encode_basestring_ascii ''name'' = ''"name"''\<close>
  \<open>encode_basestring_ascii ''description'' = ''"description"''\<close>
  \<open>encode_basestring_ascii ''instructions'' = ''"instructions"''\<close>
  \<open>encode_basestring_ascii ''tools'' = ''"tools"''\<close>
  \<open>encode_basestring_ascii ''autonomy'' = ''"autonomy"''\<close>
  by (simp_all add: encode_basestring_ascii_def escape_char_def)

lemma json_dumps_named_record:
  \<open>json_dumps (named_record n d i ts au) =
     ''{\<newline>  "name": '' @ encode_basestring_ascii n
     @ '',\<newline>  "description": '' @ encode_basestring_ascii d
     @ '',\<newline>  "instructions": '' @ encode_basestring_ascii i
     @ '',\<newline>  "tools": '' @ iterencode_list ts 1
     @ '',\<newline>  "autonomy": '' @ encode_basestring_ascii au
     @ ''\<newline>}''\<close>
  by (simp add: json_dumps_def iterencode_dict_def named_record_def newline_indent_def encode_keys
      numeral_2_eq_2)

lemma fresh_state_wf: "wf_fs (nodes fresh_state)"
  by (auto simp: wf_fs_def fresh_state_def split: if_splits)

lemma fresh_state_start: "nodes fresh_state (start_dir fresh_state p) = Some Dir"
  by (simp add: fresh_state_def start_dir_def)

lemma fresh_state_no_file: "\<not> is_file (nodes fresh_state k)"
  by (simp add: fresh_state_def is_file_def)

lemma fresh_state_clear: "clear_path (nodes fresh_state) cur cs"
  by (simp add: clear_path_def fresh_state_no_file)

lemma fresh_state_deep: "2 \<le> length k \<Longrightarrow> nodes fresh_state k = None"
  by (auto simp: fresh_state_def)

lemma create_subagent_fresh:
  assumes "t \<in> set (keys SUBAGENT_TEMPLATES)" "CHR ''/'' \<notin> set n" "''..'' \<notin> set (parts (Path out))"
  shows "\<exists>s'. create_subagent n t out fresh_state = (Inr (), s')"
proof -
  from valid_selected[OF fresh_state_loaded assms(1)] obtain d i ts au ad where
    sel: "selected fresh_state t d i ts au ad" by blast
  let ?s1 = "with_copy fresh_state (named_record n d i ts au)"
  have n: "nodes ?s1 = nodes fresh_state" and c: "start_dir ?s1 p = start_dir fresh_state p" for p
    by (simp_all add: with_copy_simps start_dir_def)
  have "\<exists>s'. emit n out d i ts au ad ?s1 = (Inr (), s')"
    using assms(2,3)
    by (intro emit_plain)
       (simp_all add: n c fresh_state_wf fresh_state_start fresh_state_clear fresh_state_deep
          agent_file_plain json_file_plain)
  then show ?thesis by (simp add: create_subagent_emit[OF fresh_state_loaded sel])
qed

text \<open>
  C9. Whatever a call of \<open>create_subagent\<close> returns, the registry is afterwards as it
  was: every dict object that existed before the call is unchanged (the only object that
  differs is the new one, at the address that was free), so every type key is still
  bound to the same record, name placeholder and tools included; for a valid type the
  new object is the copy, and it is the copy that carries the agent's name.
\<close>

theorem registry_unchanged_by_create_subagent:
  assumes "registry_loaded s"
    and "create_subagent agent_name agent_type output_dir s = (r, s')"
  shows "registry_loaded s'
       \<and> (\<forall>a. a < next_addr s \<longrightarrow> store s' a = store s a)
       \<and> (\<forall>t d i ts au ad. selected s t d i ts au ad \<longrightarrow> selected s' t d i ts au ad)
       \<and> (agent_type \<in> set (keys SUBAGENT_TEMPLATES) \<longrightarrow>
            (\<exists>d i ts au ad. selected s agent_type d i ts au ad
               \<and> store s' (next_addr s) = named_record agent_name d i ts au))"
proof (cases "agent_type \<in> set (keys SUBAGENT_TEMPLATES)")
  case False
  with assms(2) have "s' = s" by (simp add: create_subagent_def raise_def)
  with assms(1) False show ?thesis by simp
next
  case True
  from valid_selected[OF assms(1) True] obtain d i ts au ad where
    sel: "selected s agent_type d i ts au ad" by blast
  let ?s1 = "with_copy s (named_record agent_name d i ts au)"
  from assms(2) have "emit agent_name output_dir d i ts au ad ?s1 = (r, s')"
    by (simp add: create_subagent_emit[OF assms(1) sel])
  from emit_frame[OF this]
  have st: "store s' = store ?s1" and nx: "next_addr s' = next_addr ?s1" by simp_all
  have l1: "registry_loaded ?s1" by (rule with_copy_loaded[OF assms(1)])
  have a: "registry_loaded s'" by (rule loaded_frame(1)[OF l1 st nx])
  have b: "\<forall>a. a < next_addr s \<longrightarrow> store s' a = store s a"
    by (simp add: st with_copy_simps)
  have c: "\<forall>t d i ts au ad. selected s t d i ts au ad \<longrightarrow> selected s' t d i ts au ad"
    using with_copy_selected[OF assms(1)] loaded_frame(2)[OF l1 st nx] by blast
  have "store s' (next_addr s) = named_record agent_name d i ts au"
    by (simp add: st with_copy_simps)
  with sel a b c show ?thesis by blast
qed

theorem registry_unchanged_by_create_subagent_witness:
  "registry_loaded fresh_state
   \<and> (\<exists>s'. create_subagent ''doc-searcher'' ''tester'' ''out'' fresh_state = (Inr (), s')
          \<and> registry_loaded s'
          \<and> store s' 1 = store fresh_state 1
          \<and> store s' 1 = tester
          \<and> (\<exists>d i ts au. store s' 5 = named_record ''doc-searcher'' d i ts au))"
proof -
  have v: "''tester'' \<in> set (keys SUBAGENT_TEMPLATES)" by (simp add: keys_def SUBAGENT_TEMPLATES_def)
  have "CHR ''/'' \<notin> set ''doc-searcher''" by simp
  moreover have "''..'' \<notin> set (parts (Path ''out''))" by (simp add: Path_def)
  ultimately obtain s' where run: "create_subagent ''doc-searcher'' ''tester'' ''out'' fresh_state = (Inr (), s')"
    using create_subagent_fresh[OF v] by blast
  note t = registry_unchanged_by_create_subagent[OF fresh_state_loaded run]
  from t have l: "registry_loaded s'" by blast
  from t have "(1::nat) < next_addr fresh_state \<longrightarrow> store s' 1 = store fresh_state 1" by blast
  then have e: "store s' 1 = store fresh_state 1" by (simp add: fresh_state_def)
  then have e2: "store s' 1 = tester" by (simp add: fresh_state_def module_store_def)
  from t v have "\<exists>d i ts au. store s' (next_addr fresh_state) = named_record ''doc-searcher'' d i ts au"
    by blast
  then have c: "\<exists>d i ts au. store s' 5 = named_record ''doc-searcher'' d i ts au"
    by (simp add: fresh_state_def)
  from run l e e2 c fresh_state_loaded show ?thesis by blast
qed


lemma selected_builder:
  "selected fresh_state ''builder'' ''Build and deployment agent'' builder_instructions
     [''bash'', ''read''] ''high'' ''Execute tasks fully autonomously. Report results when complete.''"
  by (simp add: selected_def SUBAGENT_TEMPLATES_def fresh_state_def module_store_def builder_def
      named_record_def AUTONOMY_DESCRIPTIONS_def)


text \<open>
  C5. The \<open>.json\<close> file holds the serialization of the selected record with its name
  replaced by the agent's name; the keys, in the dict and in the text, come in the order
  name, description, instructions, tools, autonomy.
\<close>

theorem json_artifact_is_record_with_name_overridden:
  assumes \<open>registry_loaded s\<close>
    and \<open>create_subagent agent_name agent_type output_dir s = (Inr u, s')\<close>
  shows \<open>\<exists>d i ts au ad. selected s agent_type d i ts au ad
     \<and> file_at s' (json_file output_dir agent_name) = Some (json_dumps (named_record agent_name d i ts au))
     \<and> keys (named_record agent_name d i ts au)
         = [''name'', ''description'', ''instructions'', ''tools'', ''autonomy'']
     \<and> json_dumps (named_record agent_name d i ts au)
       = ''{\<newline>  "name": '' @ encode_basestring_ascii agent_name
         @ '',\<newline>  "description": '' @ encode_basestring_ascii d
         @ '',\<newline>  "instructions": '' @ encode_basestring_ascii i
         @ '',\<newline>  "tools": '' @ iterencode_list ts 1
         @ '',\<newline>  "autonomy": '' @ encode_basestring_ascii au
         @ ''\<newline>}''\<close>
proof -
  have v: "agent_type \<in> set (keys SUBAGENT_TEMPLATES)"
  proof (rule ccontr)
    assume "agent_type \<notin> set (keys SUBAGENT_TEMPLATES)"
    with assms(2) show False by (simp add: create_subagent_def raise_def)
  qed
  from valid_selected[OF assms(1) v] obtain d i ts au ad where
    sel: "selected s agent_type d i ts au ad" by blast
  from assms(2) have "emit agent_name output_dir d i ts au ad (with_copy s (named_record agent_name d i ts au)) = (Inr u, s')"
    by (simp add: create_subagent_emit[OF assms(1) sel])
  from emit_files[OF this]
  have "file_at s' (json_file output_dir agent_name) = Some (json_dumps (named_record agent_name d i ts au))"
    by simp
  moreover have "keys (named_record agent_name d i ts au)
         = [''name'', ''description'', ''instructions'', ''tools'', ''autonomy'']"
    by (simp add: keys_def named_record_def)
  ultimately show ?thesis using sel json_dumps_named_record by blast
qed

theorem json_artifact_is_record_with_name_overridden_witness:
  \<open>registry_loaded fresh_state
   \<and> (\<exists>s'. create_subagent ''doc-searcher'' ''builder'' ''.'' fresh_state = (Inr (), s')
        \<and> file_at s' (json_file ''.'' ''doc-searcher'')
          = Some (''{\<newline>  "name": "doc-searcher",\<newline>  "description": "Build and deployment agent",\<newline>  "instructions": ''
                  @ encode_basestring_ascii builder_instructions
                  @ '',\<newline>  "tools": [\<newline>    "bash",\<newline>    "read"\<newline>  ],\<newline>  "autonomy": "high"\<newline>}''))\<close>
proof -
  have v: "''builder'' \<in> set (keys SUBAGENT_TEMPLATES)" by (simp add: keys_def SUBAGENT_TEMPLATES_def)
  have "CHR ''/'' \<notin> set ''doc-searcher''" by simp
  moreover have "''..'' \<notin> set (parts (Path ''.''))" by (simp add: Path_def)
  ultimately obtain s' where run: "create_subagent ''doc-searcher'' ''builder'' ''.'' fresh_state = (Inr (), s')"
    using create_subagent_fresh[OF v] by blast
  from json_artifact_is_record_with_name_overridden[OF fresh_state_loaded run]
  obtain d i ts au ad where sel: "selected fresh_state ''builder'' d i ts au ad"
    and f: "file_at s' (json_file ''.'' ''doc-searcher'') = Some (json_dumps (named_record ''doc-searcher'' d i ts au))"
    and j: \<open>json_dumps (named_record ''doc-searcher'' d i ts au)
       = ''{\<newline>  "name": '' @ encode_basestring_ascii ''doc-searcher''
         @ '',\<newline>  "description": '' @ encode_basestring_ascii d
         @ '',\<newline>  "instructions": '' @ encode_basestring_ascii i
         @ '',\<newline>  "tools": '' @ iterencode_list ts 1
         @ '',\<newline>  "autonomy": '' @ encode_basestring_ascii au
         @ ''\<newline>}''\<close>
    by blast
  from selected_unique[OF selected_builder sel]
  have eqs: "d = ''Build and deployment agent''" "i = builder_instructions" "ts = [''bash'', ''read'']"
    "au = ''high''" by simp_all
  have e1: \<open>encode_basestring_ascii ''doc-searcher'' = ''"doc-searcher"''\<close>
    by (simp add: encode_basestring_ascii_def escape_char_def)
  have e2: \<open>encode_basestring_ascii ''Build and deployment agent'' = ''"Build and deployment agent"''\<close>
    by (simp add: encode_basestring_ascii_def escape_char_def)
  have e3: \<open>encode_basestring_ascii ''high'' = ''"high"''\<close>
    by (simp add: encode_basestring_ascii_def escape_char_def)
  have e4: \<open>iterencode_list [''bash'', ''read''] 1 = ''[\<newline>    "bash",\<newline>    "read"\<newline>  ]''\<close>
    by (simp add: iterencode_list_def newline_indent_def encode_basestring_ascii_def escape_char_def
        numeral_2_eq_2)
  from f have \<open>file_at s' (json_file ''.'' ''doc-searcher'')
          = Some (''{\<newline>  "name": "doc-searcher",\<newline>  "description": "Build and deployment agent",\<newline>  "instructions": ''
                  @ encode_basestring_ascii builder_instructions
                  @ '',\<newline>  "tools": [\<newline>    "bash",\<newline>    "read"\<newline>  ],\<newline>  "autonomy": "high"\<newline>}'')\<close>
    unfolding j unfolding eqs e1 e2 e3 e4 by simp
  with run fresh_state_loaded show ?thesis by blast
qed

lemma selected_transfer:
  assumes "registry_loaded s" "registry_loaded t" "selected s ty d i ts au ad"
  shows "selected t ty d i ts au ad"
proof -
  from assms(3) obtain a where a: "map_of SUBAGENT_TEMPLATES ty = Some a"
    and st: "store s a = named_record ''{agent_name}'' d i ts au"
    and ad: "map_of AUTONOMY_DESCRIPTIONS au = Some ad"
    by (auto simp: selected_def)
  from a have mem: "a \<in> set (map snd SUBAGENT_TEMPLATES)"
    by (auto dest: map_of_SomeD intro: rev_image_eqI)
  from assms(1) mem have "store s a = module_store a" by (auto simp: registry_loaded_def)
  moreover from assms(2) mem have "store t a = module_store a" by (auto simp: registry_loaded_def)
  ultimately have "store t a = named_record ''{agent_name}'' d i ts au" using st by simp
  with a ad show ?thesis unfolding selected_def by auto
qed

text \<open>
  C3. The two texts a successful call writes depend on the agent name and the type
  only: a second call with the same arguments, made in the state the first one left,
  succeeds, leaves every node of the file system as it is and finds the same two texts;
  and any successful call with this name and type, from any state with the registry
  loaded and into any output directory, writes these same two texts.
\<close>

theorem create_subagent_deterministic_and_idempotent:
  assumes "registry_loaded s"
    and "create_subagent agent_name agent_type output_dir s = (Inr u, s')"
  shows "(\<exists>md js. file_at s' (agent_file output_dir agent_name) = Some md
            \<and> file_at s' (json_file output_dir agent_name) = Some js
            \<and> (\<exists>s''. create_subagent agent_name agent_type output_dir s' = (Inr (), s'')
                  \<and> nodes s'' = nodes s'
                  \<and> file_at s'' (agent_file output_dir agent_name) = Some md
                  \<and> file_at s'' (json_file output_dir agent_name) = Some js)
            \<and> (\<forall>t dir v t'. registry_loaded t \<and> create_subagent agent_name agent_type dir t = (Inr v, t')
                  \<longrightarrow> file_at t' (agent_file dir agent_name) = Some md
                    \<and> file_at t' (json_file dir agent_name) = Some js))"
proof -
  have v: "agent_type \<in> set (keys SUBAGENT_TEMPLATES)"
  proof (rule ccontr)
    assume "agent_type \<notin> set (keys SUBAGENT_TEMPLATES)"
    with assms(2) show False by (simp add: create_subagent_def raise_def)
  qed
  from valid_selected[OF assms(1) v] obtain d i ts au ad where
    sel: "selected s agent_type d i ts au ad" by blast
  let ?rec = "named_record agent_name d i ts au"
  let ?md = "md_text agent_name d i (tools_list ts) ad"
  let ?js = "json_dumps ?rec"
  from assms(2) have e: "emit agent_name output_dir d i ts au ad (with_copy s ?rec) = (Inr u, s')"
    by (simp add: create_subagent_emit[OF assms(1) sel])
  note files = emit_files[OF e]
  note fr = emit_frame[OF e]
  have l1: "registry_loaded (with_copy s ?rec)" by (rule with_copy_loaded[OF assms(1)])
  from fr have l': "registry_loaded s'" by (intro loaded_frame(1)[OF l1]) simp_all
  from fr have sel': "selected s' agent_type d i ts au ad"
    by (intro loaded_frame(2)[OF l1 _ _ with_copy_selected[OF assms(1) sel]]) simp_all
  let ?t = "with_copy s' ?rec"
  have again: "emit agent_name output_dir d i ts au ad ?t = (Inr (), ?t)"
    by (rule emit_again[OF e]) (simp_all add: with_copy_simps)
  then have run2: "create_subagent agent_name agent_type output_dir s' = (Inr (), ?t)"
    by (simp add: create_subagent_emit[OF l' sel'])
  have n2: "nodes ?t = nodes s'" by (simp add: with_copy_simps)
  have f2: "file_at ?t p = file_at s' p" for p
    by (rule file_at_cong) (simp_all add: with_copy_simps)
  have other: "\<forall>t dir v t'. registry_loaded t \<and> create_subagent agent_name agent_type dir t = (Inr v, t')
                  \<longrightarrow> file_at t' (agent_file dir agent_name) = Some ?md
                    \<and> file_at t' (json_file dir agent_name) = Some ?js"
  proof (intro allI impI)
    fix t dir v t'
    assume a: "registry_loaded t \<and> create_subagent agent_name agent_type dir t = (Inr v, t')"
    have selt': "selected t agent_type d i ts au ad"
      by (rule selected_transfer[OF assms(1) conjunct1[OF a] sel])
    from a have "emit agent_name dir d i ts au ad (with_copy t ?rec) = (Inr v, t')"
      by (simp add: create_subagent_emit[OF conjunct1[OF a] selt'])
    from emit_files[OF this]
    show "file_at t' (agent_file dir agent_name) = Some ?md
                    \<and> file_at t' (json_file dir agent_name) = Some ?js" by simp
  qed
  from files run2 n2 f2 other show ?thesis by auto
qed

theorem create_subagent_deterministic_and_idempotent_witness:
  "registry_loaded fresh_state
   \<and> (\<exists>s' md js. create_subagent ''doc-searcher'' ''tester'' ''out'' fresh_state = (Inr (), s')
          \<and> file_at s' (agent_file ''out'' ''doc-searcher'') = Some md
          \<and> file_at s' (json_file ''out'' ''doc-searcher'') = Some js
          \<and> (\<exists>s''. create_subagent ''doc-searcher'' ''tester'' ''out'' s' = (Inr (), s'')
                \<and> nodes s'' = nodes s'
                \<and> file_at s'' (agent_file ''out'' ''doc-searcher'') = Some md
                \<and> file_at s'' (json_file ''out'' ''doc-searcher'') = Some js))"
proof -
  have v: "''tester'' \<in> set (keys SUBAGENT_TEMPLATES)" by (simp add: keys_def SUBAGENT_TEMPLATES_def)
  have "CHR ''/'' \<notin> set ''doc-searcher''" by simp
  moreover have "''..'' \<notin> set (parts (Path ''out''))" by (simp add: Path_def)
  ultimately obtain s' where run: "create_subagent ''doc-searcher'' ''tester'' ''out'' fresh_state = (Inr (), s')"
    using create_subagent_fresh[OF v] by blast
  from create_subagent_deterministic_and_idempotent[OF fresh_state_loaded run] run fresh_state_loaded
  show ?thesis by blast
qed

section \<open>What a call of \<open>generate_claude_md\<close> does\<close>

lemma generate_valid:
  assumes "map_of TEMPLATES t = Some c"
  shows "generate_claude_md t out s
         = bind_io (mkdir (parent (Path out)) True True) (\<lambda>_. write_text (Path out) c) s"
proof -
  from assms have "t \<in> set (keys TEMPLATES)"
    by (auto simp: keys_def dest: map_of_SomeD intro: rev_image_eqI)
  with assms show ?thesis by (simp add: generate_claude_md_def Let_def)
qed

lemma valid_template: "t \<in> set (keys TEMPLATES) \<Longrightarrow> \<exists>c. map_of TEMPLATES t = Some c"
  by (auto simp: keys_def TEMPLATES_def)

lemma generate_writes:
  assumes "map_of TEMPLATES t = Some c" "generate_claude_md t out s = (Inr u, s')"
  shows "file_at s' (Path out) = Some c \<and> is_dir (parent (Path out)) s'"
proof -
  from assms(2) obtain s2 where m: "mkdir (parent (Path out)) True True s = (Inr (), s2)"
    and w: "write_text (Path out) c s2 = (Inr (), s')"
    unfolding generate_valid[OF assms(1)] by (auto simp: bind_io_def split: prod.splits sum.splits)
  have "dirs_grow (nodes s2) (nodes s')" using write_text_same_dirs[OF w] same_dirs_grow by blast
  from is_dir_mono[OF this _ mkdir_is_dir[OF m]] write_text_frame[OF w]
  have "is_dir (parent (Path out)) s'" by simp
  with write_text_file_at[OF w] show ?thesis by simp
qed

lemma generate_plain:
  assumes c: "map_of TEMPLATES t = Some c"
    and wf: "wf_fs (nodes s)"
    and ne: "parts (Path out) \<noteq> []"
    and dd: "''..'' \<notin> set (parts (Path out))"
    and st: "nodes s (start_dir s (Path out)) = Some Dir"
    and cl: "clear_path (nodes s) (start_dir s (Path out)) (butlast (parts (Path out)))"
    and nd: "nodes s (start_dir s (Path out) @ parts (Path out)) \<noteq> Some Dir"
  shows "\<exists>s'. generate_claude_md t out s = (Inr (), s')"
proof -
  let ?p = "Path out"
  let ?q = "parent ?p"
  let ?st = "start_dir s ?p"
  have q: "parts ?q = butlast (parts ?p)" "absolute ?p = absolute ?q"
    by (simp_all add: parent_def)
  have stq: "start_dir s ?q = ?st" by (rule start_dir_parent)
  have ddq: "''..'' \<notin> set (parts ?q)" using dd by (auto simp: q dest: in_set_butlastD)
  have x: "last (parts ?p) \<noteq> ''..''" using dd ne by (metis last_in_set)
  have pq: "parts ?p = parts ?q @ [last (parts ?p)]" using ne by (simp add: q)
  from mkdir_plain[of s ?q] wf st ddq cl obtain s2 where
    m: "mkdir ?q True True s = (Inr (), s2)"
    and ch: "\<forall>k. nodes s2 k \<noteq> nodes s k \<longrightarrow> (\<exists>r. prefix r (parts ?q) \<and> k = ?st @ r)"
    by (auto simp: stq q)
  have st2: "start_dir s2 ?q = ?st" using mkdir_frame[OF m] by (simp add: start_dir_def q)
  have same: "nodes s2 (?st @ parts ?p) = nodes s (?st @ parts ?p)"
  proof (rule ccontr)
    assume "nodes s2 (?st @ parts ?p) \<noteq> nodes s (?st @ parts ?p)"
    with ch obtain r where "prefix r (parts ?q)" "?st @ parts ?p = ?st @ r" by blast
    then have "prefix (parts ?p) (butlast (parts ?p))" by (simp add: q)
    from prefix_length_le[OF this] ne show False
      by (cases "parts ?p" rule: rev_cases) simp_all
  qed
  have "nodes s2 (start_dir s2 ?q @ parts ?q @ [last (parts ?p)]) \<noteq> Some Dir"
    using nd same pq by (simp add: st2)
  from write_plain[OF mkdir_is_dir[OF m] ddq pq q(2) x this, of c]
  obtain s' where w: "write_text ?p c s2 = (Inr (), s')" by blast
  from m w show ?thesis by (simp add: generate_valid[OF c] bind_io_def)
qed

lemma Path_default_output: "Path ''./CLAUDE.md'' = \<lparr>absolute = False, parts = [''CLAUDE.md'']\<rparr>"
  by (simp add: Path_def starts_with_slash_def)

lemma library_bound: "map_of TEMPLATES ''library'' = Some library_template"
  by (simp add: TEMPLATES_def)

text \<open>
  C7. A successful call of \<open>generate_claude_md\<close> with a valid project type leaves at
  the output path a file whose content is the template of that type, character for
  character. In particular \<open>--type library\<close> with the default output, started in an
  existing working directory of a well-formed file system in which \<open>CLAUDE.md\<close> is not
  a directory, succeeds and \<open>./CLAUDE.md\<close> holds exactly \<open>library_template\<close>.
\<close>

theorem template_written_verbatim:
  "(\<forall>u s'. project_type \<in> set (keys TEMPLATES)
            \<and> generate_claude_md project_type output_path s = (Inr u, s')
        \<longrightarrow> (\<exists>content. map_of TEMPLATES project_type = Some content
               \<and> file_at s' (Path output_path) = Some content))
   \<and> (wf_fs (nodes s) \<and> nodes s (cwd s) = Some Dir \<and> nodes s (cwd s @ [''CLAUDE.md'']) \<noteq> Some Dir
        \<longrightarrow> (\<exists>s'. generate_claude_md_main (Some ''library'') None s = (Inr (), s')
               \<and> file_at s' (Path ''./CLAUDE.md'') = Some library_template))"
proof (intro conjI allI impI)
  fix u s'
  assume a: "project_type \<in> set (keys TEMPLATES)
            \<and> generate_claude_md project_type output_path s = (Inr u, s')"
  from valid_template[OF conjunct1[OF a]] obtain c where c: "map_of TEMPLATES project_type = Some c"
    by blast
  from generate_writes[OF c conjunct2[OF a]] c
  show "\<exists>content. map_of TEMPLATES project_type = Some content
               \<and> file_at s' (Path output_path) = Some content" by blast
next
  assume h: "wf_fs (nodes s) \<and> nodes s (cwd s) = Some Dir \<and> nodes s (cwd s @ [''CLAUDE.md'']) \<noteq> Some Dir"
  have "\<exists>s'. generate_claude_md ''library'' ''./CLAUDE.md'' s = (Inr (), s')"
    using h
    by (intro generate_plain[OF library_bound])
       (simp_all add: start_dir_def Path_default_output clear_path_def is_file_def)
  then obtain s' where run: "generate_claude_md ''library'' ''./CLAUDE.md'' s = (Inr (), s')" by blast
  have "''library'' \<in> set (keys TEMPLATES)" by (simp add: keys_def TEMPLATES_def)
  with run have "generate_claude_md_main (Some ''library'') None s = (Inr (), s')"
    by (simp add: generate_claude_md_main_def)
  with generate_writes[OF library_bound run]
  show "\<exists>s'. generate_claude_md_main (Some ''library'') None s = (Inr (), s')
               \<and> file_at s' (Path ''./CLAUDE.md'') = Some library_template" by blast
qed

theorem template_written_verbatim_witness:
  "wf_fs (nodes fresh_state) \<and> nodes fresh_state (cwd fresh_state) = Some Dir
   \<and> nodes fresh_state (cwd fresh_state @ [''CLAUDE.md'']) \<noteq> Some Dir
   \<and> ''library'' \<in> set (keys TEMPLATES)
   \<and> (\<exists>s'. generate_claude_md_main (Some ''library'') None fresh_state = (Inr (), s')
          \<and> generate_claude_md ''library'' ''./CLAUDE.md'' fresh_state = (Inr (), s')
          \<and> file_at s' (Path ''./CLAUDE.md'') = Some library_template
          \<and> map_of TEMPLATES ''library'' = Some library_template)"
proof -
  have a: "nodes fresh_state (cwd fresh_state) = Some Dir" by (simp add: fresh_state_def)
  have b: "nodes fresh_state (cwd fresh_state @ [''CLAUDE.md'']) \<noteq> Some Dir"
    by (simp add: fresh_state_def)
  have v: "''library'' \<in> set (keys TEMPLATES)" by (simp add: keys_def TEMPLATES_def)
  note t = template_written_verbatim[where s = fresh_state and project_type = "''library''"
              and output_path = "''./CLAUDE.md''"]
  from t fresh_state_wf a b obtain s' where
    run: "generate_claude_md_main (Some ''library'') None fresh_state = (Inr (), s')"
    and f: "file_at s' (Path ''./CLAUDE.md'') = Some library_template"
    by blast
  from run v have run2: "generate_claude_md ''library'' ''./CLAUDE.md'' fresh_state = (Inr (), s')"
    by (simp add: generate_claude_md_main_def)
  from fresh_state_wf a b v run run2 f library_bound show ?thesis by blast
qed



subsection \<open>Reading what \<open>json.dumps\<close> wrote\<close>

lemma hexval_hexdigit: "k < 16 \<Longrightarrow> hexval (hexdigit k) = Some k"
proof -
  assume "k < 16"
  then have "k \<in> {0, 1, 2, 3, 4, 5, 6, 7, 8, 9, 10, 11, 12, 13, 14, 15}" by (simp; arith)
  then show ?thesis by (auto simp: hexdigit_def hexval_def)
qed

lemma hexval_zero: "hexval CHR ''0'' = Some 0"
  by (simp add: hexval_def)

lemma lexer_escape_char:
  "lexer (Inside a) (escape_char c @ rest) = lexer (Inside (c # a)) rest"
proof -
  let ?n = "of_char c :: nat"
  have n: "?n < 256" by simp
  then have d: "?n div 16 < 16" and m: "?n mod 16 < 16" by arith+
  have rt: "char_of (?n div 16 * 16 + ?n mod 16) = c" by simp
  consider (bs) "c = CHR 0x5C" | (dq) "c = CHR 0x22" | (b) "c = CHR 0x08" | (f) "c = CHR 0x0C"
    | (n) "c = CHR 0x0A" | (r) "c = CHR 0x0D" | (t) "c = CHR 0x09"
    | (hex) "c \<noteq> CHR 0x5C" "c \<noteq> CHR 0x22" "c \<noteq> CHR 0x08" "c \<noteq> CHR 0x0C" "c \<noteq> CHR 0x0A"
        "c \<noteq> CHR 0x0D" "c \<noteq> CHR 0x09" "?n < 32 \<or> 126 < ?n"
    | (plain) "c \<noteq> CHR 0x5C" "c \<noteq> CHR 0x22" "\<not> (?n < 32 \<or> 126 < ?n)"
    by blast
  then show ?thesis
  proof cases
    case hex
    then have "escape_char c = [CHR 0x5C, CHR ''u'', CHR ''0'', CHR ''0'',
        hexdigit (?n div 16), hexdigit (?n mod 16)]"
      by (simp add: escape_char_def)
    then show ?thesis
      using hexval_hexdigit[OF d] hexval_hexdigit[OF m] rt n
      by (simp add: hexval_zero)
  next
    case plain
    then have "escape_char c = [c]" by (auto simp: escape_char_def)
    with plain show ?thesis by simp
  qed (simp_all add: escape_char_def)
qed

lemma lexer_escaped:
  "lexer (Inside a) (concat (map escape_char s) @ CHR 0x22 # rest)
   = push (StrTok (rev a @ s)) (lexer Outside rest)"
  by (induction s arbitrary: a) (simp_all add: lexer_escape_char)

lemma lexer_string:
  "lexer Outside (encode_basestring_ascii s @ rest) = push (StrTok s) (lexer Outside rest)"
  using lexer_escaped[of "[]" s rest] by (simp add: encode_basestring_ascii_def is_ws_def)

lemma lexer_spaces: "lexer Outside (replicate m CHR '' '' @ rest) = lexer Outside rest"
  by (induction m) (simp_all add: is_ws_def)

lemma lexer_newline_indent: "lexer Outside (newline_indent k @ rest) = lexer Outside rest"
  by (simp add: newline_indent_def is_ws_def lexer_spaces)

lemma push_pushes: "push t (pushes ts r) = pushes (t # ts) r"
  by (cases r) (simp_all add: push_def pushes_def)

lemma pushes_Nil: "pushes [] r = r"
  by (cases r) (simp_all add: pushes_def)

lemma lexer_join:
  "xs \<noteq> [] \<Longrightarrow>
   lexer Outside (join (CHR '','' # newline_indent l) (map encode_basestring_ascii xs) @ rest)
   = pushes (sep_tokens xs) (lexer Outside rest)"
proof (induction xs rule: sep_tokens.induct)
  case 1
  then show ?case by simp
next
  case (2 x)
  show ?case by (simp add: lexer_string push_pushes[of _ "[]", simplified pushes_Nil, symmetric])
next
  case (3 x y ys)
  have "lexer Outside (CHR '','' # newline_indent l @ u) = push Comma (lexer Outside u)" for u
    using lexer_newline_indent[of l u] by (simp add: is_ws_def)
  with 3 show ?case by (simp add: lexer_string push_pushes)
qed

lemma lexer_list:
  "lexer Outside (iterencode_list xs l @ rest)
   = pushes (LBrack # sep_tokens xs @ [RBrack]) (lexer Outside rest)"
proof (cases "xs = []")
  case True
  then show ?thesis
    by (cases "lexer Outside rest") (simp_all add: iterencode_list_def is_ws_def push_def pushes_def)
next
  case False
  have a: "lexer Outside (newline_indent l @ CHR '']'' # rest) = push RBrack (lexer Outside rest)"
    using lexer_newline_indent[of l "CHR '']'' # rest"] by (simp add: is_ws_def)
  from False show ?thesis
    by (cases "lexer Outside rest")
       (simp_all add: iterencode_list_def is_ws_def lexer_newline_indent lexer_join a push_def pushes_def)
qed

lemma elements_sep_tokens:
  "xs \<noteq> [] \<Longrightarrow> elements (sep_tokens xs @ RBrack # r) = Some (xs, r)"
  by (induction xs rule: sep_tokens.induct) simp_all

lemma json_value_list:
  "json_value (LBrack # sep_tokens xs @ RBrack # r) = Some (StrList xs, r)"
proof (cases xs)
  case Nil
  then show ?thesis by simp
next
  case (Cons x ys)
  then have "xs \<noteq> []" by simp
  from elements_sep_tokens[OF this, of r] Cons show ?thesis
    by (cases ys) simp_all
qed

lemma lexer_named_record:
  "lexer Outside (json_dumps (named_record n d i ts au))
   = Some ([LBrace, StrTok ''name'', Colon, StrTok n, Comma,
            StrTok ''description'', Colon, StrTok d, Comma,
            StrTok ''instructions'', Colon, StrTok i, Comma,
            StrTok ''tools'', Colon, LBrack] @ sep_tokens ts
           @ [RBrack, Comma, StrTok ''autonomy'', Colon, StrTok au, RBrace])"
  by (simp add: json_dumps_named_record is_ws_def lexer_string lexer_list push_def pushes_def)

lemma members_named_record:
  "members ([StrTok ''name'', Colon, StrTok n, Comma,
            StrTok ''description'', Colon, StrTok d, Comma,
            StrTok ''instructions'', Colon, StrTok i, Comma,
            StrTok ''tools'', Colon, LBrack] @ sep_tokens ts
           @ [RBrack, Comma, StrTok ''autonomy'', Colon, StrTok au, RBrace])
   = Some (named_record n d i ts au, [])"
  using json_value_list[of ts "[Comma, StrTok ''autonomy'', Colon, StrTok au, RBrace]"]
  by (simp add: named_record_def)

lemma json_loads_named_record:
  "json_loads (json_dumps (named_record n d i ts au)) = Some (named_record n d i ts au)"
  using members_named_record[of n d i ts au]
  by (simp add: json_loads_def lexer_named_record) (simp add: named_record_def)



lemma selected_researcher:
  assumes "registry_loaded s"
  shows "selected s ''researcher'' ''Research and documentation lookup agent with deep analysis''
           researcher_instructions [''read'', ''search'', ''web_search''] ''medium''
           ''Take standard actions autonomously. Ask for confirmation on significant changes.''"
proof -
  have "(0::nat) \<in> set (map snd SUBAGENT_TEMPLATES)" by (simp add: SUBAGENT_TEMPLATES_def)
  with assms have "store s 0 = module_store 0" by (auto simp: registry_loaded_def)
  then show ?thesis
    by (simp add: selected_def SUBAGENT_TEMPLATES_def module_store_def researcher_def
        named_record_def AUTONOMY_DESCRIPTIONS_def)
qed

lemma Path_dot: "Path ''.'' = \<lparr>absolute = False, parts = []\<rparr>"
  by (simp add: Path_def starts_with_slash_def)

lemma doc_searcher_paths:
  "Path ''./.claude/agents/doc-searcher.md'' = agent_file ''.'' ''doc-searcher''"
  "Path ''./.claude/agents/doc-searcher.json'' = json_file ''.'' ''doc-searcher''"
  by (simp_all add: agent_file_plain json_file_plain Path_dot) (simp_all add: Path_def starts_with_slash_def)

lemma sublist_description: "sublist d (md_text n d i tls ad)"
  unfolding md_text_def by (intro sublist_after sublist_append_rightI)

lemma sublist_autonomy_medium:
  \<open>sublist ''"autonomy": "medium"'' (json_dumps (named_record n d i ts ''medium''))\<close>
proof -
  have e: \<open>encode_basestring_ascii ''medium'' = ''"medium"''\<close>
    by (simp add: encode_basestring_ascii_def escape_char_def)
  have \<open>json_dumps (named_record n d i ts ''medium'') =
     (''{\<newline>  "name": '' @ encode_basestring_ascii n
     @ '',\<newline>  "description": '' @ encode_basestring_ascii d
     @ '',\<newline>  "instructions": '' @ encode_basestring_ascii i
     @ '',\<newline>  "tools": '' @ iterencode_list ts 1
     @ '',\<newline>  '') @ ''"autonomy": "medium"'' @ ''\<newline>}''\<close>
    by (simp add: json_dumps_named_record e)
  then show ?thesis by (simp only: sublist_appendI)
qed

text \<open>
  C6. The scenario: \<open>doc-searcher\<close>, \<open>--type researcher\<close>, default output, started in an
  existing working directory of a well-formed file system in which \<open>.claude\<close> and
  \<open>.claude/agents\<close> are not files and the two targets are not directories. The call
  succeeds; \<open>./.claude/agents/doc-searcher.md\<close> holds the description of the researcher
  record, and \<open>./.claude/agents/doc-searcher.json\<close> holds the text \<open>"autonomy": "medium"\<close>
  and, read back as JSON, has \<open>autonomy\<close> equal to \<open>medium\<close>.
\<close>

theorem doc_searcher_scenario:
  assumes \<open>registry_loaded s\<close> and \<open>wf_fs (nodes s)\<close> and \<open>nodes s (cwd s) = Some Dir\<close>
    and \<open>clear_path (nodes s) (cwd s) [''.claude'', ''agents'']\<close>
    and \<open>nodes s (cwd s @ [''.claude'', ''agents'', ''doc-searcher.md'']) \<noteq> Some Dir\<close>
    and \<open>nodes s (cwd s @ [''.claude'', ''agents'', ''doc-searcher.json'']) \<noteq> Some Dir\<close>
  shows \<open>\<exists>s' md js obj.
      create_subagent_main ''doc-searcher'' (Some ''researcher'') None s = (Inr (), s')
    \<and> file_at s' (Path ''./.claude/agents/doc-searcher.md'') = Some md
    \<and> sublist ''Research and documentation lookup agent with deep analysis'' md
    \<and> file_at s' (Path ''./.claude/agents/doc-searcher.json'') = Some js
    \<and> sublist ''"autonomy": "medium"'' js
    \<and> json_loads js = Some obj
    \<and> map_of obj ''autonomy'' = Some (Str ''medium'')\<close>
proof -
  let ?d = "''Research and documentation lookup agent with deep analysis''"
  let ?ts = "[''read'', ''search'', ''web_search'']"
  let ?ad = "''Take standard actions autonomously. Ask for confirmation on significant changes.''"
  let ?rec = "named_record ''doc-searcher'' ?d researcher_instructions ?ts ''medium''"
  let ?md = "md_text ''doc-searcher'' ?d researcher_instructions (tools_list ?ts) ?ad"
  note sel = selected_researcher[OF assms(1)]
  let ?s1 = "with_copy s ?rec"
  have n: "nodes ?s1 = nodes s" and c: "start_dir ?s1 p = start_dir s p" for p
    by (simp_all add: with_copy_simps start_dir_def)
  have "\<exists>s'. emit ''doc-searcher'' ''.'' ?d researcher_instructions ?ts ''medium'' ?ad ?s1 = (Inr (), s')"
    using assms(2-6)
    by (intro emit_plain)
       (simp_all add: n with_copy_simps start_dir_def Path_dot agents_dir_parts agent_file_plain
          json_file_plain)
  then obtain s' where e: "emit ''doc-searcher'' ''.'' ?d researcher_instructions ?ts ''medium'' ?ad ?s1 = (Inr (), s')"
    by blast
  then have "create_subagent ''doc-searcher'' ''researcher'' ''.'' s = (Inr (), s')"
    by (simp add: create_subagent_emit[OF assms(1) sel])
  then have run: "create_subagent_main ''doc-searcher'' (Some ''researcher'') None s = (Inr (), s')"
    by (simp add: create_subagent_main_def keys_def SUBAGENT_TEMPLATES_def)
  from emit_files[OF e]
  have f1: "file_at s' (Path ''./.claude/agents/doc-searcher.md'') = Some ?md"
    and f2: "file_at s' (Path ''./.claude/agents/doc-searcher.json'') = Some (json_dumps ?rec)"
    by (simp_all add: doc_searcher_paths)
  have l: "json_loads (json_dumps ?rec) = Some ?rec" by (rule json_loads_named_record)
  have m: "map_of ?rec ''autonomy'' = Some (Str ''medium'')" by (simp add: named_record_def)
  from run f1 sublist_description[of ?d] f2 sublist_autonomy_medium l m
  show ?thesis by blast
qed

theorem doc_searcher_scenario_witness:
  \<open>registry_loaded fresh_state \<and> wf_fs (nodes fresh_state)
   \<and> nodes fresh_state (cwd fresh_state) = Some Dir
   \<and> clear_path (nodes fresh_state) (cwd fresh_state) [''.claude'', ''agents'']
   \<and> nodes fresh_state (cwd fresh_state @ [''.claude'', ''agents'', ''doc-searcher.md'']) \<noteq> Some Dir
   \<and> nodes fresh_state (cwd fresh_state @ [''.claude'', ''agents'', ''doc-searcher.json'']) \<noteq> Some Dir
   \<and> (\<exists>s' md js obj.
      create_subagent_main ''doc-searcher'' (Some ''researcher'') None fresh_state = (Inr (), s')
    \<and> file_at s' (Path ''./.claude/agents/doc-searcher.md'') = Some md
    \<and> sublist ''Research and documentation lookup agent with deep analysis'' md
    \<and> file_at s' (Path ''./.claude/agents/doc-searcher.json'') = Some js
    \<and> sublist ''"autonomy": "medium"'' js
    \<and> json_loads js = Some obj
    \<and> map_of obj ''autonomy'' = Some (Str ''medium''))\<close>
proof -
  have a: "nodes fresh_state (cwd fresh_state) = Some Dir" by (simp add: fresh_state_def)
  have b: "nodes fresh_state (cwd fresh_state @ [''.claude'', ''agents'', ''doc-searcher.md'']) \<noteq> Some Dir"
    "nodes fresh_state (cwd fresh_state @ [''.claude'', ''agents'', ''doc-searcher.json'']) \<noteq> Some Dir"
    by (simp_all add: fresh_state_def)
  note c = fresh_state_clear[of "cwd fresh_state" "[''.claude'', ''agents'']"]
  from doc_searcher_scenario[OF fresh_state_loaded fresh_state_wf a c b]
       fresh_state_loaded fresh_state_wf a c b
  show ?thesis by blast
qed

end
